theory Spec2Isabelle
  imports Complex_Main "HOL-Library.Word"
begin

section \<open>SampleEncoder: quantisation of captured samples (VoiceRecorder.tsx, onaudioprocess)\<close>

text \<open>
  A JavaScript number as it occurs in the capture callback: an element of a
  \<^verbatim>\<open>Float32Array\<close> is a finite value, a NaN or an infinity.  Finite values are
  modelled as reals.  The arithmetic done on them here (comparison with 0, one
  multiplication of a clamped 24-bit-mantissa sample by the integer constant 32768 or
  32767) is exact in double precision, so no rounding is lost by that.
\<close>

datatype jsnum = Finite real | NaN | PosInf | NegInf

text \<open>\<^verbatim>\<open>Math.min(a, b)\<close> and \<^verbatim>\<open>Math.max(a, b)\<close>: a NaN argument gives NaN.\<close>

fun Math_min :: "jsnum \<Rightarrow> jsnum \<Rightarrow> jsnum" where
  "Math_min NaN _ = NaN"
| "Math_min _ NaN = NaN"
| "Math_min NegInf _ = NegInf"
| "Math_min _ NegInf = NegInf"
| "Math_min PosInf b = b"
| "Math_min a PosInf = a"
| "Math_min (Finite a) (Finite b) = Finite (min a b)"

fun Math_max :: "jsnum \<Rightarrow> jsnum \<Rightarrow> jsnum" where
  "Math_max NaN _ = NaN"
| "Math_max _ NaN = NaN"
| "Math_max PosInf _ = PosInf"
| "Math_max _ PosInf = PosInf"
| "Math_max NegInf b = b"
| "Math_max a NegInf = a"
| "Math_max (Finite a) (Finite b) = Finite (max a b)"

text \<open>The comparison \<^verbatim>\<open>a < b\<close>: false as soon as one side is NaN.\<close>

fun js_lt :: "jsnum \<Rightarrow> jsnum \<Rightarrow> bool" where
  "js_lt NaN _ = False"
| "js_lt _ NaN = False"
| "js_lt PosInf _ = False"
| "js_lt _ NegInf = False"
| "js_lt NegInf _ = True"
| "js_lt _ PosInf = True"
| "js_lt (Finite a) (Finite b) = (a < b)"

text \<open>The product \<^verbatim>\<open>a * b\<close>; an infinity times zero is NaN.\<close>

fun js_mul :: "jsnum \<Rightarrow> jsnum \<Rightarrow> jsnum" where
  "js_mul NaN _ = NaN"
| "js_mul _ NaN = NaN"
| "js_mul (Finite a) (Finite b) = Finite (a * b)"
| "js_mul (Finite a) PosInf = (if a = 0 then NaN else if 0 < a then PosInf else NegInf)"
| "js_mul (Finite a) NegInf = (if a = 0 then NaN else if 0 < a then NegInf else PosInf)"
| "js_mul PosInf (Finite b) = (if b = 0 then NaN else if 0 < b then PosInf else NegInf)"
| "js_mul NegInf (Finite b) = (if b = 0 then NaN else if 0 < b then NegInf else PosInf)"
| "js_mul PosInf PosInf = PosInf"
| "js_mul NegInf NegInf = PosInf"
| "js_mul PosInf NegInf = NegInf"
| "js_mul NegInf PosInf = NegInf"

text \<open>Truncation of a real towards zero, the integer part taken by a typed-array store.\<close>

definition trunc_zero :: "real \<Rightarrow> int" where
  "trunc_zero x = (if x < 0 then \<lceil>x\<rceil> else \<lfloor>x\<rfloor>)"

text \<open>
  Storing a number into an \<^verbatim>\<open>Int16Array\<close> element (ToInt16): NaN and the infinities
  give 0, a finite value is truncated towards zero and reduced modulo \<open>2 ^ 16\<close>.
\<close>

fun ToInt16 :: "jsnum \<Rightarrow> 16 word" where
  "ToInt16 (Finite x) = word_of_int (trunc_zero x)"
| "ToInt16 _ = 0"

text \<open>
  The body of the conversion loop:
  \<^verbatim>\<open>const s = Math.max(-1, Math.min(1, combined[i]));
  int16Array[i] = s < 0 ? s * 0x8000 : s * 0x7FFF;\<close>
\<close>

definition quantize :: "jsnum \<Rightarrow> 16 word" where
  "quantize x =
     (let s = Math_max (Finite (- 1)) (Math_min (Finite 1) x)
      in ToInt16 (if js_lt s (Finite 0) then js_mul s (Finite 32768) else js_mul s (Finite 32767)))"

text \<open>The quantisation rule in the words of the specification, on a real sample.\<close>

definition clamp_unit :: "real \<Rightarrow> real" where
  "clamp_unit x = max (- 1) (min 1 x)"

definition quantize_spec :: "real \<Rightarrow> int" where
  "quantize_spec x =
     trunc_zero (if clamp_unit x < 0 then clamp_unit x * 32768 else clamp_unit x * 32767)"


section \<open>SampleEncoder: bytes and text-safe encoding (VoiceRecorder.tsx, onaudioprocess)\<close>

text \<open>
  \<^verbatim>\<open>new Uint8Array(int16Array.buffer)\<close>: the bytes of the 16-bit samples in the byte
  order of the platform, which is little-endian on every platform the browsers run on.
\<close>

definition int16_bytes :: "16 word \<Rightarrow> 8 word list" where
  "int16_bytes w = [ucast w, ucast (drop_bit 8 w)]"

definition Uint8Array_of_Int16Array :: "16 word list \<Rightarrow> 8 word list" where
  "Uint8Array_of_Int16Array ws = concat (map int16_bytes ws)"

text \<open>
  \<^verbatim>\<open>bytes.subarray(b, e)\<close> for \<open>b \<le> e \<le> length\<close>, and
  \<^verbatim>\<open>String.fromCharCode.apply(null, Array.from(chunk))\<close>: one character per byte, with
  the byte as its code.  A binary string is a list of 8-bit characters.
\<close>

definition subarray :: "'a list \<Rightarrow> nat \<Rightarrow> nat \<Rightarrow> 'a list" where
  "subarray xs b e = take (e - b) (drop b xs)"

definition fromCharCode :: "8 word list \<Rightarrow> string" where
  "fromCharCode bs = map (\<lambda>b. char_of (unat b)) bs"

definition chunkSize :: nat where
  "chunkSize = 8192"

text \<open>
  The windowed loop
  \<^verbatim>\<open>for (let i = 0; i < bytes.length; i += chunkSize) {
    const chunk = bytes.subarray(i, Math.min(i + chunkSize, bytes.length));
    binary += String.fromCharCode.apply(null, Array.from(chunk)); }\<close>
  with the loop variable and the accumulated string as arguments.
\<close>

function binary_loop :: "8 word list \<Rightarrow> nat \<Rightarrow> string \<Rightarrow> string" where
  "binary_loop bytes i binary =
     (if i < length bytes
      then binary_loop bytes (i + chunkSize)
             (binary @ fromCharCode (subarray bytes i (min (i + chunkSize) (length bytes))))
      else binary)"
  by pat_completeness auto
termination
  by (relation "measure (\<lambda>(bytes, i, binary). length bytes - i)") (auto simp: chunkSize_def)

declare binary_loop.simps [simp del]

text \<open>
  \<^verbatim>\<open>btoa\<close> is a function of the browser, not of this repository.  It is modelled by
  its standard: base64 with the alphabet of RFC 4648, three characters of the binary
  string to four of the alphabet, the last group padded with \<open>=\<close>.
\<close>

definition base64_alphabet :: string where
  "base64_alphabet = ''ABCDEFGHIJKLMNOPQRSTUVWXYZabcdefghijklmnopqrstuvwxyz0123456789+/''"

definition b64_char :: "nat \<Rightarrow> char" where
  "b64_char i = base64_alphabet ! (i mod 64)"

fun btoa :: "string \<Rightarrow> string" where
  "btoa [] = []"
| "btoa [a] =
     (let n = (of_char a :: nat) * 65536
      in [b64_char (n div 262144), b64_char (n div 4096 mod 64), CHR ''='', CHR ''=''])"
| "btoa [a, b] =
     (let n = (of_char a :: nat) * 65536 + of_char b * 256
      in [b64_char (n div 262144), b64_char (n div 4096 mod 64),
          b64_char (n div 64 mod 64), CHR ''=''])"
| "btoa (a # b # c # rest) =
     (let n = (of_char a :: nat) * 65536 + of_char b * 256 + of_char c
      in [b64_char (n div 262144), b64_char (n div 4096 mod 64),
          b64_char (n div 64 mod 64), b64_char (n mod 64)] @ btoa rest)"

text \<open>The encoding of one chunk's bytes as the callback does it: the loop, then \<^verbatim>\<open>btoa\<close>.\<close>

definition encode_bytes :: "8 word list \<Rightarrow> string" where
  "encode_bytes bytes = btoa (binary_loop bytes 0 [])"

text \<open>
  Modelled from the spec: the decoder of the round-trip property \<open>decode(encode(B)) == B\<close>.
  The receiving side decodes; it is not part of this repository.  It is modelled as the
  decoding of RFC 4648: four characters of the alphabet to three bytes, \<open>=\<close> padding
  allowed in the last group only, any other character rejected.
\<close>

definition b64_index :: "char \<Rightarrow> nat option" where
  "b64_index c = map_of (zip base64_alphabet [0..<64]) c"

fun base64_decode :: "string \<Rightarrow> string option" where
  "base64_decode [] = Some []"
| "base64_decode (c1 # c2 # c3 # c4 # rest) =
     (if rest = [] \<and> c4 = CHR ''='' then
        (if c3 = CHR ''='' then
           (case (b64_index c1, b64_index c2) of
              (Some i1, Some i2) \<Rightarrow> Some [char_of ((i1 * 64 + i2) div 16)]
            | _ \<Rightarrow> None)
         else
           (case (b64_index c1, b64_index c2, b64_index c3) of
              (Some i1, Some i2, Some i3) \<Rightarrow>
                (let m = i1 * 4096 + i2 * 64 + i3
                 in Some [char_of (m div 1024), char_of (m div 4 mod 256)])
            | _ \<Rightarrow> None))
      else
        (case (b64_index c1, b64_index c2, b64_index c3, b64_index c4) of
           (Some i1, Some i2, Some i3, Some i4) \<Rightarrow>
             (let m = i1 * 262144 + i2 * 4096 + i3 * 64 + i4
              in case base64_decode rest of
                   Some s \<Rightarrow> Some (char_of (m div 65536) # char_of (m div 256 mod 256)
                                     # char_of (m mod 256) # s)
                 | None \<Rightarrow> None)
         | _ \<Rightarrow> None))"
| "base64_decode _ = None"

definition decode_bytes :: "string \<Rightarrow> 8 word list option" where
  "decode_bytes t = map_option (map (\<lambda>c. word_of_nat (of_char c))) (base64_decode t)"


section \<open>AudioChunker: the capture callback (VoiceRecorder.tsx, processor.onaudioprocess)\<close>

text \<open>The messages the recorder emits on its socket, with their payload fields in order.\<close>

datatype socket_emit =
    start_translation string string   \<comment> \<open>\<open>source_lang\<close>, \<open>target_lang\<close>\<close>
  | audio_chunk string real string    \<comment> \<open>\<open>audio\<close>, \<open>sample_rate\<close>, \<open>format\<close>\<close>
  | stop_translation

definition CHUNK_DURATION :: real where
  "CHUNK_DURATION = 2.0"

text \<open>\<^verbatim>\<open>const samplesPerChunk = Math.floor(CHUNK_DURATION * sampleRate);\<close>\<close>

definition samplesPerChunk :: "real \<Rightarrow> int" where
  "samplesPerChunk sampleRate = \<lfloor>CHUNK_DURATION * sampleRate\<rfloor>"

text \<open>
  The conversion of the combined samples to the text that is sent: quantisation to an
  \<^verbatim>\<open>Int16Array\<close>, its bytes, the windowed loop and \<^verbatim>\<open>btoa\<close>.
\<close>

definition pcm_bytes :: "jsnum list \<Rightarrow> 8 word list" where
  "pcm_bytes combined = Uint8Array_of_Int16Array (map quantize combined)"

definition encode_chunk :: "jsnum list \<Rightarrow> string" where
  "encode_chunk combined = encode_bytes (pcm_bytes combined)"

text \<open>
  One call of \<^verbatim>\<open>processor.onaudioprocess\<close>.  The arguments are the sample rate of the
  audio context, whether the socket is connected at this call, the closure variable
  \<^verbatim>\<open>audioBuffer\<close> and the frame \<^verbatim>\<open>inputData\<close>; the result is the list of
  messages emitted by this call and the new value of \<^verbatim>\<open>audioBuffer\<close>.  When the
  threshold is reached and the socket is not connected, the chunk is skipped (a warning
  is logged) and the buffer is cleared all the same.
\<close>

definition onaudioprocess ::
  "real \<Rightarrow> bool \<Rightarrow> jsnum list list \<Rightarrow> jsnum list \<Rightarrow> socket_emit list \<times> jsnum list list" where
  "onaudioprocess sampleRate conn audioBuffer inputData =
     (let audioBuffer1 = audioBuffer @ [inputData];
          totalSamples = sum_list (map length audioBuffer1)
      in if samplesPerChunk sampleRate \<le> int totalSamples
         then (let combined = concat audioBuffer1
               in (if conn
                   then [audio_chunk (encode_chunk combined) sampleRate ''raw_pcm'']
                   else [],
                   []))
         else ([], audioBuffer1))"

text \<open>
  What the receiver reads out of a message: the bytes in the payload of an
  \<open>audio_chunk\<close>, two for each 16-bit sample, and nothing in any other message.
\<close>

fun chunk_bytes :: "socket_emit \<Rightarrow> 8 word list" where
  "chunk_bytes (audio_chunk a sr f) = (case decode_bytes a of Some bytes \<Rightarrow> bytes | None \<Rightarrow> [])"
| "chunk_bytes (start_translation a b) = []"
| "chunk_bytes stop_translation = []"

definition chunk_samples :: "socket_emit \<Rightarrow> nat" where
  "chunk_samples m = length (chunk_bytes m) div 2"

definition emitted_bytes :: "socket_emit list \<Rightarrow> 8 word list" where
  "emitted_bytes out = concat (map chunk_bytes out)"

definition emitted_samples :: "socket_emit list \<Rightarrow> nat" where
  "emitted_samples out = sum_list (map chunk_samples out)"

fun is_audio_chunk :: "socket_emit \<Rightarrow> bool" where
  "is_audio_chunk (audio_chunk a sr f) = True"
| "is_audio_chunk (start_translation a b) = False"
| "is_audio_chunk stop_translation = False"


section \<open>RecordingController: the recorder component (VoiceRecorder.tsx and its REST-only variant)\<close>

text \<open>
  The source holds three versions of the component.  The one modelled in this section and
  the next is the version with the two modes, real-time and batch; the REST-only version,
  with the health probe, follows it.  The level meter of the component is independent of
  what is verified here: of it only the state variable \<open>audioLevel\<close> is kept.
\<close>

type_synonym blob = "8 word list"

datatype timestamp = Millis real | IsoString string

record TranslationResult =
  original_text :: string
  translated_text :: string
  audio_base64 :: string
  sample_rate :: real
  latency_ms :: real
  confidence :: real
  timestamp :: timestamp
  is_final :: "bool option"

text \<open>A value thrown or a rejection reason: a \<^verbatim>\<open>DOMException\<close> (name, message), any other
  \<^verbatim>\<open>Error\<close> (message), or a value that is not an \<^verbatim>\<open>Error\<close>.\<close>

datatype thrown = DOMException string string | Error string | NonError

text \<open>
  An HTTP response as the component reads it: the status, and what
  \<^verbatim>\<open>response.json()\<close> gives, either the parsed body or the message of the exception
  raised by the parser.
\<close>

datatype 'a body = Unparsable string | Parsed 'a

record 'a response =
  status :: nat
  body :: "'a body"

definition response_ok :: "'a response \<Rightarrow> bool" where
  "response_ok r = (200 \<le> status r \<and> status r \<le> 299)"

text \<open>The body of \<^verbatim>\<open>POST /api/translate\<close>, with the fields the component reads.  A field
  that is absent is \<open>None\<close>.\<close>

record api_data =
  d_success :: bool
  d_error :: "string option"
  d_original_text :: string
  d_translated_text :: string
  d_audio_base64 :: string
  d_sample_rate :: real
  d_metrics :: "(real \<times> real) option"   \<comment> \<open>\<open>latency_ms\<close>, \<open>confidence\<close>\<close>

datatype form_field = file_field string blob string | text_field string string

datatype http_request = POST string "form_field list"

datatype mode = realtime | batch

record props =
  sourceLang :: string
  targetLang :: string
  onError :: bool   \<comment> \<open>whether the optional callback is supplied\<close>

text \<open>
  The state of the component.  The calls of the callbacks \<^verbatim>\<open>onTranslation\<close> and
  \<^verbatim>\<open>onError\<close>, the messages emitted on the socket, the HTTP requests issued and the
  console are recorded in lists, oldest first.  \<open>audioProcessor\<close> is the script
  processor node stored on the stream, with the sample rate of its context and the
  closure variable \<^verbatim>\<open>audioBuffer\<close> of its callback; it is \<open>None\<close> when no node is
  installed or the node has been disconnected.
\<close>

record recorder =
  isRecording :: bool
  isConnected :: bool
  isProcessing :: bool
  mode :: mode
  audioLevel :: real
  audioChunksRef :: "blob list"
  micLive :: bool
  audioContextOpen :: bool
  mediaRecorderActive :: bool
  audioProcessor :: "(real \<times> jsnum list list) option"
  socketConnected :: bool
  socketOut :: "socket_emit list"
  httpOut :: "http_request list"
  onTranslationCalls :: "TranslationResult list"
  onErrorCalls :: "string list"
  console :: "string list"

definition initial_recorder :: recorder where
  "initial_recorder =
     \<lparr>isRecording = False, isConnected = False, isProcessing = False, mode = realtime,
      audioLevel = 0, audioChunksRef = [], micLive = False, audioContextOpen = False,
      mediaRecorderActive = False, audioProcessor = None, socketConnected = False,
      socketOut = [], httpOut = [], onTranslationCalls = [], onErrorCalls = [], console = []\<rparr>"

subsection \<open>Batch mode: \<^verbatim>\<open>sendAudioToBackend\<close>\<close>

text \<open>\<^verbatim>\<open>x || 'Translation failed'\<close> on an optional string: absent and empty are falsy.\<close>

definition or_translation_failed :: "string option \<Rightarrow> string" where
  "or_translation_failed e =
     (case e of None \<Rightarrow> ''Translation failed''
      | Some m \<Rightarrow> if m = [] then ''Translation failed'' else m)"

text \<open>The message of the \<^verbatim>\<open>TypeError\<close> raised by \<^verbatim>\<open>data.metrics.latency_ms\<close> when
  \<^verbatim>\<open>metrics\<close> is absent; its wording is the engine's.\<close>

definition metrics_TypeError :: string where
  "metrics_TypeError = ''Cannot read properties of undefined (reading latency_ms)''"

text \<open>
  The \<^verbatim>\<open>try\<close> block after \<^verbatim>\<open>fetch\<close> has settled: the value thrown, or the result
  handed to \<^verbatim>\<open>onTranslation\<close>.  The first argument is the time read by the block.
\<close>

definition translate_try :: "timestamp \<Rightarrow> thrown + api_data response \<Rightarrow> thrown + TranslationResult" where
  "translate_try now fetched =
     (case fetched of
        Inl e \<Rightarrow> Inl e
      | Inr r \<Rightarrow>
          if \<not> response_ok r then
            (case body r of
               Unparsable m \<Rightarrow> Inl (Error m)
             | Parsed errorData \<Rightarrow> Inl (Error (or_translation_failed (d_error errorData))))
          else
            (case body r of
               Unparsable m \<Rightarrow> Inl (Error m)
             | Parsed data \<Rightarrow>
                 if d_success data then
                   (case d_metrics data of
                      None \<Rightarrow> Inl (Error metrics_TypeError)
                    | Some (l, c) \<Rightarrow>
                        Inr \<lparr>original_text = d_original_text data,
                             translated_text = d_translated_text data,
                             audio_base64 = d_audio_base64 data,
                             sample_rate = d_sample_rate data,
                             latency_ms = l, confidence = c,
                             timestamp = now, is_final = Some True\<rparr>)
                 else Inl (Error (or_translation_failed (d_error data)))))"

text \<open>\<^verbatim>\<open>error instanceof Error ? error.message : 'Failed to translate audio'\<close>; a
  \<^verbatim>\<open>DOMException\<close> is an \<^verbatim>\<open>Error\<close>.\<close>

fun message_or_generic :: "thrown \<Rightarrow> string" where
  "message_or_generic (Error m) = m"
| "message_or_generic (DOMException n m) = m"
| "message_or_generic NonError = ''Failed to translate audio''"

definition translate_request :: "props \<Rightarrow> blob \<Rightarrow> http_request" where
  "translate_request p audioBlob =
     POST ''/api/translate''
       [file_field ''audio'' audioBlob ''recording.webm'',
        text_field ''source_lang'' (sourceLang p),
        text_field ''target_lang'' (targetLang p)]"

text \<open>
  \<^verbatim>\<open>sendAudioToBackend(audioBlob)\<close>, run to its end.  \<open>fetched\<close> is how the one
  \<^verbatim>\<open>fetch\<close> of the call settles.  The two variants of the function in the source differ
  in the form of the timestamp only.
\<close>

definition sendAudioToBackend ::
  "props \<Rightarrow> timestamp \<Rightarrow> blob \<Rightarrow> thrown + api_data response \<Rightarrow> recorder \<Rightarrow> recorder" where
  "sendAudioToBackend p now audioBlob fetched s =
     (let s1 = s\<lparr>isProcessing := True\<rparr>;
          s2 = s1\<lparr>httpOut := httpOut s1 @ [translate_request p audioBlob]\<rparr>;
          s3 = (case translate_try now fetched of
                  Inr result \<Rightarrow> s2\<lparr>onTranslationCalls := onTranslationCalls s2 @ [result]\<rparr>
                | Inl e \<Rightarrow>
                    (let s' = s2\<lparr>console := console s2 @ [''Error sending audio:'']\<rparr>
                     in if onError p
                        then s'\<lparr>onErrorCalls := onErrorCalls s' @ [message_or_generic e]\<rparr>
                        else s'))
      in s3\<lparr>isProcessing := False\<rparr>)"


subsection \<open>Starting and stopping (VoiceRecorder.tsx, \<^verbatim>\<open>startRecording\<close>, \<^verbatim>\<open>stopRecording\<close>)\<close>

text \<open>
  What the platform answers during \<^verbatim>\<open>startRecording\<close>: whether
  \<^verbatim>\<open>navigator.mediaDevices.getUserMedia\<close> exists, how the request for the microphone
  settles (the rejection reason, or a stream), and the sample rate of the audio context
  that is created.  The calls after the acquisition (creating the audio context, the
  analyser and the media recorder) are taken to succeed.
\<close>

record start_env =
  mediaDevicesAvailable :: bool
  getUserMedia :: "thrown + unit"
  contextSampleRate :: real

text \<open>The \<^verbatim>\<open>catch\<close> block of \<^verbatim>\<open>startRecording\<close>: the message for the value caught.\<close>

definition errorMessage :: "thrown \<Rightarrow> string" where
  "errorMessage error =
     (case error of
        DOMException name message \<Rightarrow>
          if name = ''NotAllowedError''
            then ''Microphone permission denied. Please allow microphone access.''
          else if name = ''NotFoundError''
            then ''No microphone found. Please connect a microphone.''
          else if name = ''NotReadableError''
            then ''Microphone is in use by another application.''
          else if name = ''OverconstrainedError''
            then ''Could not satisfy audio constraints.''
          else if name = ''SecurityError''
            then ''Microphone access blocked. Use HTTPS or localhost.''
          else ''Microphone error: '' @ message
      | Error message \<Rightarrow> message
      | NonError \<Rightarrow> ''Failed to access microphone'')"

definition start_catch :: "props \<Rightarrow> thrown \<Rightarrow> recorder \<Rightarrow> recorder" where
  "start_catch p error s =
     (let s1 = s\<lparr>console := console s @ [''Error starting recording:'']\<rparr>
      in if onError p
         then s1\<lparr>onErrorCalls := onErrorCalls s1 @ [errorMessage error]\<rparr>
         else s1)"

definition mediaDevices_unavailable :: thrown where
  "mediaDevices_unavailable =
     Error ''Microphone access not available. Please use localhost (not 127.0.0.1) or HTTPS.''"

definition startRecording :: "props \<Rightarrow> start_env \<Rightarrow> recorder \<Rightarrow> recorder" where
  "startRecording p env s =
     (let s0 = s\<lparr>audioChunksRef := []\<rparr>
      in if \<not> mediaDevicesAvailable env then start_catch p mediaDevices_unavailable s0
         else
           (case getUserMedia env of
              Inl error \<Rightarrow> start_catch p error s0
            | Inr stream \<Rightarrow>
                (let s1 = s0\<lparr>micLive := True, audioContextOpen := True\<rparr>
                 in if mode s1 = realtime \<and> socketConnected s1
                    then s1\<lparr>console := console s1 @ [''Starting real-time translation...''],
                            socketOut := socketOut s1 @
                              [start_translation (sourceLang p) (targetLang p)],
                            isProcessing := True,
                            audioProcessor := Some (contextSampleRate env, []),
                            mediaRecorderActive := True,
                            isRecording := True\<rparr>
                    else s1\<lparr>console := console s1 @ [''Starting batch recording...''],
                            mediaRecorderActive := True,
                            isRecording := True\<rparr>)))"

text \<open>
  The capture callback as an event on the component: it runs only while the processor
  node is installed, with the closure variable kept in the state between the calls.
\<close>

definition audio_callback :: "jsnum list \<Rightarrow> recorder \<Rightarrow> recorder" where
  "audio_callback inputData s =
     (case audioProcessor s of
        None \<Rightarrow> s
      | Some (sampleRate, audioBuffer) \<Rightarrow>
          (let (out, audioBuffer1) =
                 onaudioprocess sampleRate (socketConnected s) audioBuffer inputData
           in s\<lparr>socketOut := socketOut s @ out,
                audioProcessor := Some (sampleRate, audioBuffer1)\<rparr>))"

text \<open>
  \<^verbatim>\<open>stopRecording\<close>.  The media recorder is stopped, \<open>stop_translation\<close> is emitted in
  real-time mode on a connected socket, the processor node is disconnected, the tracks
  are stopped and the audio context is closed.  Nothing reads the closure variable
  \<^verbatim>\<open>audioBuffer\<close> of the processor: what it holds goes with the node.
\<close>

definition stopRecording :: "recorder \<Rightarrow> recorder" where
  "stopRecording s =
     (let s1 = (if mediaRecorderActive s then s\<lparr>mediaRecorderActive := False\<rparr> else s);
          s2 = (if mode s1 = realtime \<and> socketConnected s1
                then s1\<lparr>socketOut := socketOut s1 @ [stop_translation]\<rparr> else s1);
          s3 = (if micLive s2 then s2\<lparr>audioProcessor := None, micLive := False\<rparr> else s2);
          s4 = (if audioContextOpen s3 then s3\<lparr>audioContextOpen := False\<rparr> else s3)
      in s4\<lparr>isRecording := False, audioLevel := 0\<rparr>)"

text \<open>
  A streaming session: \<^verbatim>\<open>startRecording\<close>, the capture callbacks for the frames in
  order, \<^verbatim>\<open>stopRecording\<close>.
\<close>

definition capture :: "jsnum list list \<Rightarrow> recorder \<Rightarrow> recorder" where
  "capture frames s = fold audio_callback frames s"

definition streaming_session :: "props \<Rightarrow> start_env \<Rightarrow> jsnum list list \<Rightarrow> recorder \<Rightarrow> recorder" where
  "streaming_session p env frames s = stopRecording (capture frames (startRecording p env s))"

text \<open>The samples held in the closure variable of the processor node, in order.\<close>

definition buffered :: "recorder \<Rightarrow> jsnum list" where
  "buffered s =
     (case audioProcessor s of None \<Rightarrow> [] | Some (sampleRate, audioBuffer) \<Rightarrow> concat audioBuffer)"

subsection \<open>The REST-only variant of the component: health probe and record button\<close>

definition HEALTH_INTERVAL_MS :: nat where
  "HEALTH_INTERVAL_MS = 5000"

definition HEALTH_TIMEOUT_MS :: nat where
  "HEALTH_TIMEOUT_MS = 3000"

text \<open>
  \<^verbatim>\<open>checkHealth\<close>, run to its end.  The argument is how the \<^verbatim>\<open>fetch\<close> of
  \<^verbatim>\<open>/health\<close> settles; the abort after the timeout is a rejection with an
  \<open>AbortError\<close>.  In the branch \<^verbatim>\<open>response.ok\<close> the body is parsed before the flag is
  set, and an exception of the parser is caught by the same \<^verbatim>\<open>catch\<close>.
\<close>

definition checkHealth :: "thrown + 'a response \<Rightarrow> recorder \<Rightarrow> recorder" where
  "checkHealth fetched s =
     (case fetched of
        Inl error \<Rightarrow> s\<lparr>console := console s @ [''Health check failed:''], isConnected := False\<rparr>
      | Inr r \<Rightarrow>
          if response_ok r then
            (case body r of
               Parsed data \<Rightarrow>
                 s\<lparr>console := console s @ [''Backend health check OK:''], isConnected := True\<rparr>
             | Unparsable m \<Rightarrow>
                 s\<lparr>console := console s @ [''Health check failed:''], isConnected := False\<rparr>)
          else s\<lparr>console := console s @ [''Health check failed with status:''],
                  isConnected := False\<rparr>)"

text \<open>\<^verbatim>\<open>startRecording\<close> and \<^verbatim>\<open>stopRecording\<close> of the variant: no socket, no processor
  node, and one message for every failure.\<close>

definition start_rest_catch :: "props \<Rightarrow> recorder \<Rightarrow> recorder" where
  "start_rest_catch p s =
     (let s1 = s\<lparr>console := console s @ [''Error starting recording:'']\<rparr>
      in if onError p
         then s1\<lparr>onErrorCalls := onErrorCalls s1 @ [''Failed to access microphone'']\<rparr>
         else s1)"

definition startRecording_rest :: "props \<Rightarrow> start_env \<Rightarrow> recorder \<Rightarrow> recorder" where
  "startRecording_rest p env s =
     (let s0 = s\<lparr>audioChunksRef := []\<rparr>
      in if \<not> mediaDevicesAvailable env then start_rest_catch p s0
         else
           (case getUserMedia env of
              Inl error \<Rightarrow> start_rest_catch p s0
            | Inr stream \<Rightarrow>
                s0\<lparr>micLive := True, audioContextOpen := True, mediaRecorderActive := True,
                   isRecording := True\<rparr>))"

definition stopRecording_rest :: "recorder \<Rightarrow> recorder" where
  "stopRecording_rest s =
     (let s1 = (if mediaRecorderActive s then s\<lparr>mediaRecorderActive := False\<rparr> else s);
          s2 = (if micLive s1 then s1\<lparr>micLive := False\<rparr> else s1);
          s3 = (if audioContextOpen s2 then s2\<lparr>audioContextOpen := False\<rparr> else s2)
      in s3\<lparr>isRecording := False, audioLevel := 0\<rparr>)"

definition toggleRecording :: "props \<Rightarrow> start_env \<Rightarrow> recorder \<Rightarrow> recorder" where
  "toggleRecording p env s =
     (if isRecording s then stopRecording_rest s else startRecording_rest p env s)"

text \<open>
  The record button: \<^verbatim>\<open>onClick={toggleRecording}\<close> with
  \<^verbatim>\<open>disabled={!isConnected || isProcessing}\<close>.  A click on a disabled button runs no
  handler.
\<close>

definition record_button_disabled :: "recorder \<Rightarrow> bool" where
  "record_button_disabled s = (\<not> isConnected s \<or> isProcessing s)"

definition click_record_button :: "props \<Rightarrow> start_env \<Rightarrow> recorder \<Rightarrow> recorder" where
  "click_record_button p env s =
     (if record_button_disabled s then s else toggleRecording p env s)"


section \<open>ResultSequencer and PlaybackQueue: the display component (TranslationDisplay.tsx)\<close>

text \<open>
  An \<^verbatim>\<open>Audio\<close> object created by the component: its source, which pair of
  \<^verbatim>\<open>onended\<close>/\<^verbatim>\<open>onerror\<close> handlers was installed on it (those of
  \<^verbatim>\<open>playNextInQueue\<close> or those of \<^verbatim>\<open>playAudio\<close>), and whether it is playing.
\<close>

datatype handlers = queue_handlers | replay_handlers

datatype play_state = Playing | Paused | Ended | Failed

record audio_element =
  src :: string
  installed :: handlers
  playState :: play_state

text \<open>
  The state of the component: the property \<^verbatim>\<open>results\<close> as last rendered, the state
  variable \<^verbatim>\<open>playingIndex\<close>, the three references, the \<^verbatim>\<open>Audio\<close> objects created so
  far in the order of their creation, and the console.  \<^verbatim>\<open>audioRef.current\<close> is the
  position of an object in that list.
\<close>

record display =
  results :: "TranslationResult list"
  playingIndex :: "nat option"
  audioRef :: "nat option"
  audioQueueRef :: "(string \<times> nat) list"
  isPlayingQueueRef :: bool
  audios :: "audio_element list"
  consoleErrors :: "string list"

definition initial_display :: display where
  "initial_display =
     \<lparr>results = [], playingIndex = None, audioRef = None, audioQueueRef = [],
      isPlayingQueueRef = False, audios = [], consoleErrors = []\<rparr>"

text \<open>
  What the platform does with the statements of a \<^verbatim>\<open>try\<close> block that creates and
  starts an \<^verbatim>\<open>Audio\<close> object for a payload: everything runs and the object plays, or the
  constructor raises, or the call of \<^verbatim>\<open>play\<close> raises.
\<close>

datatype sync = Starts | NewAudioThrows | PlayThrows

definition data_url :: "string \<Rightarrow> string" where
  "data_url audioBase64 = ''data:audio/wav;base64,'' @ audioBase64"

text \<open>\<^verbatim>\<open>pause()\<close> on the object at position \<open>k\<close>: a playing object becomes paused.\<close>

definition pause :: "nat \<Rightarrow> audio_element list \<Rightarrow> audio_element list" where
  "pause k as =
     (if k < length as \<and> playState (as ! k) = Playing
      then as[k := (as ! k)\<lparr>playState := Paused\<rparr>] else as)"

text \<open>\<^verbatim>\<open>if (audioRef.current) { audioRef.current.pause(); }\<close>\<close>

definition pause_current :: "display \<Rightarrow> display" where
  "pause_current s =
     (case audioRef s of None \<Rightarrow> s | Some k \<Rightarrow> s\<lparr>audios := pause k (audios s)\<rparr>)"

definition new_audio :: "string \<Rightarrow> handlers \<Rightarrow> play_state \<Rightarrow> audio_element" where
  "new_audio audioBase64 h st = \<lparr>src = data_url audioBase64, installed = h, playState = st\<rparr>"

text \<open>
  \<^verbatim>\<open>const audio = new Audio(audioData); audioRef.current = audio; setPlayingIndex(index);\<close>
  with the handlers \<open>h\<close> installed; \<open>st\<close> says whether the call of \<^verbatim>\<open>play\<close> that
  follows starts the object.
\<close>

definition register_audio :: "string \<Rightarrow> nat \<Rightarrow> handlers \<Rightarrow> play_state \<Rightarrow> display \<Rightarrow> display" where
  "register_audio audioBase64 index h st s =
     s\<lparr>audios := audios s @ [new_audio audioBase64 h st],
       audioRef := Some (length (audios s)),
       playingIndex := Some index\<rparr>"

definition log_error :: "string \<Rightarrow> display \<Rightarrow> display" where
  "log_error msg s = s\<lparr>consoleErrors := consoleErrors s @ [msg]\<rparr>"

text \<open>
  \<^verbatim>\<open>playNextInQueue\<close>.  The recursion is the call in the \<^verbatim>\<open>catch\<close> block; the calls
  from the handlers of the object are events, see \<open>fire\<close> below.
\<close>

function playNextInQueue :: "(string \<Rightarrow> sync) \<Rightarrow> display \<Rightarrow> display" where
  "playNextInQueue plat s =
     (case audioQueueRef s of
        [] \<Rightarrow> s\<lparr>isPlayingQueueRef := False, playingIndex := None\<rparr>
      | entry # rest \<Rightarrow>
          (let s2 = pause_current (s\<lparr>isPlayingQueueRef := True, audioQueueRef := rest\<rparr>)
           in case plat (fst entry) of
                NewAudioThrows \<Rightarrow>
                  playNextInQueue plat (log_error ''Error playing audio:'' s2)
              | PlayThrows \<Rightarrow>
                  playNextInQueue plat
                    (log_error ''Error playing audio:''
                       (register_audio (fst entry) (snd entry) queue_handlers Paused s2))
              | Starts \<Rightarrow>
                  register_audio (fst entry) (snd entry) queue_handlers Playing s2))"
  by pat_completeness auto
termination
  by (relation "measure (\<lambda>(plat, s). length (audioQueueRef s))")
    (auto simp: pause_current_def log_error_def register_audio_def split: option.splits)

declare playNextInQueue.simps [simp del]

text \<open>
  The effect \<^verbatim>\<open>useEffect(..., [results.length])\<close>: its body, and a render of the
  component with a new value of \<^verbatim>\<open>results\<close>, which runs the body when the length has
  changed.
\<close>

definition autoPlayEffect :: "(string \<Rightarrow> sync) \<Rightarrow> display \<Rightarrow> display" where
  "autoPlayEffect plat s =
     (if 0 < length (results s) then
        (let latestResult = last (results s);
             latestIndex = length (results s) - 1;
             s1 = s\<lparr>audioQueueRef := audioQueueRef s @ [(audio_base64 latestResult, latestIndex)]\<rparr>
         in if \<not> isPlayingQueueRef s1 then playNextInQueue plat s1 else s1)
      else s)"

definition render :: "(string \<Rightarrow> sync) \<Rightarrow> TranslationResult list \<Rightarrow> display \<Rightarrow> display" where
  "render plat rs s =
     (if length rs \<noteq> length (results s) then autoPlayEffect plat (s\<lparr>results := rs\<rparr>)
      else s\<lparr>results := rs\<rparr>)"

text \<open>\<^verbatim>\<open>playAudio(audioBase64, index)\<close>, the direct replay, and \<^verbatim>\<open>stopAudio\<close>.\<close>

definition playAudio :: "(string \<Rightarrow> sync) \<Rightarrow> string \<Rightarrow> nat \<Rightarrow> display \<Rightarrow> display" where
  "playAudio plat audioBase64 index s =
     (let s1 = (pause_current s)\<lparr>audioRef := None\<rparr>
      in case plat audioBase64 of
           NewAudioThrows \<Rightarrow>
             (log_error ''Error playing audio:'' s1)\<lparr>playingIndex := None\<rparr>
         | PlayThrows \<Rightarrow>
             (log_error ''Error playing audio:''
                (register_audio audioBase64 index replay_handlers Paused s1))\<lparr>playingIndex := None\<rparr>
         | Starts \<Rightarrow> register_audio audioBase64 index replay_handlers Playing s1)"

definition stopAudio :: "display \<Rightarrow> display" where
  "stopAudio s =
     (case audioRef s of
        None \<Rightarrow> s
      | Some k \<Rightarrow> (pause_current s)\<lparr>audioRef := None, playingIndex := None\<rparr>)"

text \<open>
  The events of an \<^verbatim>\<open>Audio\<close> object: it has played to its end, it has failed, or the
  promise of its \<^verbatim>\<open>play()\<close> is rejected.  \<open>fire\<close> records what the event says about
  the object and runs the handler that was installed on it.  The objects of
  \<^verbatim>\<open>playAudio\<close> have no handler for a rejected promise.
\<close>

datatype media_event = media_ended | media_error | play_rejected

definition after_event :: "media_event \<Rightarrow> play_state \<Rightarrow> play_state" where
  "after_event ev st =
     (case ev of
        media_ended \<Rightarrow> Ended
      | media_error \<Rightarrow> Failed
      | play_rejected \<Rightarrow> if st = Playing then Failed else st)"

definition mark_event :: "media_event \<Rightarrow> nat \<Rightarrow> display \<Rightarrow> display" where
  "mark_event ev k s =
     s\<lparr>audios := (audios s)[k := (audios s ! k)\<lparr>playState := after_event ev (playState (audios s ! k))\<rparr>]\<rparr>"

definition fire :: "(string \<Rightarrow> sync) \<Rightarrow> media_event \<Rightarrow> nat \<Rightarrow> display \<Rightarrow> display" where
  "fire plat ev k s =
     (if k < length (audios s) then
        (let s1 = mark_event ev k s
         in case installed (audios s ! k) of
              queue_handlers \<Rightarrow>
                (case ev of
                   media_ended \<Rightarrow> playNextInQueue plat s1
                 | media_error \<Rightarrow> playNextInQueue plat (log_error ''Error playing audio'' s1)
                 | play_rejected \<Rightarrow>
                     playNextInQueue plat (log_error ''Error starting playback:'' s1))
            | replay_handlers \<Rightarrow>
                (case ev of
                   media_ended \<Rightarrow> s1\<lparr>playingIndex := None, audioRef := None\<rparr>
                 | media_error \<Rightarrow>
                     (log_error ''Error playing audio'' s1)\<lparr>playingIndex := None, audioRef := None\<rparr>
                 | play_rejected \<Rightarrow> s1))
      else s)"

text \<open>
  What happens to the component: the component renders, an \<^verbatim>\<open>Audio\<close> object has an
  event, the user clicks Play on the card of a result, or the user clicks Stop.

  The parent (\<^verbatim>\<open>handleTranslation\<close> of the page) appends each result with
  \<^verbatim>\<open>setResults(prev => [...prev, result])\<close>, and \<^verbatim>\<open>clearResults\<close> sets the empty list.
  The component does not see these calls, it sees the list of the next render: the updates
  made since the last render are applied together.  \<open>Render rs\<close> is a render with the
  list \<open>rs\<close>, whatever it is; \<open>Submit r\<close> is the render in which exactly the result
  \<open>r\<close> has been appended, \<open>Render (results s @ [r])\<close>.
\<close>

datatype event =
  Submit TranslationResult
| Render "TranslationResult list"
| Media media_event nat
| ClickPlay nat
| ClickStop

fun step :: "(string \<Rightarrow> sync) \<Rightarrow> event \<Rightarrow> display \<Rightarrow> display" where
  "step plat (Submit r) s = render plat (results s @ [r]) s"
| "step plat (Render rs) s = render plat rs s"
| "step plat (Media ev k) s = fire plat ev k s"
| "step plat (ClickPlay i) s =
     (if i < length (results s) then playAudio plat (audio_base64 (results s ! i)) i s else s)"
| "step plat ClickStop s = stopAudio s"

definition run :: "(string \<Rightarrow> sync) \<Rightarrow> event list \<Rightarrow> display \<Rightarrow> display" where
  "run plat evs s = fold (step plat) evs s"

text \<open>
  The events of the queue alone: renders that append one result, and events of audio
  objects.  \<open>submitted\<close> lists the results that the renders of a sequence of such
  events append.
\<close>

fun is_queue_event :: "event \<Rightarrow> bool" where
  "is_queue_event (Submit r) = True"
| "is_queue_event (Render rs) = False"
| "is_queue_event (Media ev k) = True"
| "is_queue_event (ClickPlay i) = False"
| "is_queue_event ClickStop = False"

fun submitted :: "event list \<Rightarrow> TranslationResult list" where
  "submitted [] = []"
| "submitted (Submit r # evs) = r # submitted evs"
| "submitted (Render rs # evs) = submitted evs"
| "submitted (Media ev k # evs) = submitted evs"
| "submitted (ClickPlay i # evs) = submitted evs"
| "submitted (ClickStop # evs) = submitted evs"

text \<open>
  A sequence of events is timely when every event of an audio object comes from the
  current object while it is playing: an object reports its end or its failure once,
  and not after it has been replaced.
\<close>

fun timely :: "(string \<Rightarrow> sync) \<Rightarrow> event list \<Rightarrow> display \<Rightarrow> bool" where
  "timely plat [] s = True"
| "timely plat (e # evs) s =
     ((case e of
         Media ev k \<Rightarrow>
           audioRef s = Some k \<and> k < length (audios s) \<and> playState (audios s ! k) = Playing
       | Submit r \<Rightarrow> True
       | Render rs \<Rightarrow> True
       | ClickPlay i \<Rightarrow> True
       | ClickStop \<Rightarrow> True)
      \<and> timely plat evs (step plat e s))"

text \<open>
  The entry the effect makes for each of a list of results, and the properties of a state
  used below: only the object in \<^verbatim>\<open>audioRef.current\<close> can be playing; two playing
  objects are the same object; the objects created are those of the first results, in
  order, and the queue holds the entries of the remaining ones, in order.
\<close>

definition queue_entries :: "TranslationResult list \<Rightarrow> (string \<times> nat) list" where
  "queue_entries rs = zip (map audio_base64 rs) [0..<length rs]"

definition only_current_plays :: "display \<Rightarrow> bool" where
  "only_current_plays s =
     ((\<forall>k < length (audios s). playState (audios s ! k) = Playing \<longrightarrow> audioRef s = Some k)
      \<and> (\<forall>k. audioRef s = Some k \<longrightarrow> k < length (audios s)))"

definition at_most_one_playing :: "display \<Rightarrow> bool" where
  "at_most_one_playing s =
     (\<forall>i < length (audios s). \<forall>j < length (audios s).
        playState (audios s ! i) = Playing \<and> playState (audios s ! j) = Playing \<longrightarrow> i = j)"

definition started_in_order :: "display \<Rightarrow> bool" where
  "started_in_order s =
     (length (audios s) \<le> length (results s)
      \<and> map src (audios s) = map (\<lambda>r. data_url (audio_base64 r)) (take (length (audios s)) (results s))
      \<and> audioQueueRef s = drop (length (audios s)) (queue_entries (results s)))"


section \<open>Quantisation: proofs\<close>

lemma quantize_spec_range: "- 32768 \<le> quantize_spec x \<and> quantize_spec x \<le> 32767"
proof (cases "clamp_unit x < 0")
  case True
  have "- 1 \<le> clamp_unit x" by (simp add: clamp_unit_def)
  then have "- 32768 \<le> clamp_unit x * 32768" by simp
  then have lo: "- 32768 \<le> \<lceil>clamp_unit x * 32768\<rceil>" by linarith
  have "clamp_unit x * 32768 \<le> 0" using True by simp
  then have "\<lceil>clamp_unit x * 32768\<rceil> \<le> 0" by linarith
  with lo True show ?thesis by (simp add: quantize_spec_def trunc_zero_def)
next
  case False
  have "clamp_unit x \<le> 1" by (simp add: clamp_unit_def)
  then have "clamp_unit x * 32767 \<le> 32767" by simp
  then have hi: "\<lfloor>clamp_unit x * 32767\<rfloor> \<le> 32767" by linarith
  have "0 \<le> clamp_unit x * 32767" using False by simp
  then have "0 \<le> \<lfloor>clamp_unit x * 32767\<rfloor>" by linarith
  with hi False show ?thesis by (simp add: quantize_spec_def trunc_zero_def)
qed

lemma quantize_Finite: "quantize (Finite x) = word_of_int (quantize_spec x)"
  by (simp add: quantize_def quantize_spec_def clamp_unit_def Let_def min_def max_def)

lemma sint_int16: "- 32768 \<le> n \<Longrightarrow> n \<le> 32767 \<Longrightarrow> sint (word_of_int n :: 16 word) = n"
  by (simp add: sint_sbintrunc' signed_take_bit_int_eq_self)

text \<open>
  Claim C2.  A finite sample is clamped to \<open>[-1, 1]\<close>, a negative value is scaled by
  32768 and any other by 32767, and the product is truncated towards zero: the stored
  16-bit value, read as a signed integer, is exactly the value of the rule as the
  specification words it.  That value lies in \<open>[-32768, 32767]\<close>, so the store never
  wraps; every sample, also a NaN or an infinity, is stored as a value in that range;
  0 is stored as 0, 1.0 as 32767 and -1.0 as -32768.
\<close>

theorem quantize_clamps_scales_truncates:
  "sint (quantize (Finite x)) = quantize_spec x
   \<and> - 32768 \<le> quantize_spec x \<and> quantize_spec x \<le> 32767
   \<and> - 32768 \<le> sint (quantize s) \<and> sint (quantize s) \<le> 32767
   \<and> sint (quantize (Finite 0)) = 0
   \<and> sint (quantize (Finite 1)) = 32767
   \<and> sint (quantize (Finite (- 1))) = - 32768
   \<and> sint (quantize PosInf) = 32767
   \<and> sint (quantize NegInf) = - 32768
   \<and> sint (quantize NaN) = 0"
proof -
  have a: "sint (quantize (Finite x)) = quantize_spec x"
    using quantize_spec_range [of x] by (simp add: quantize_Finite sint_int16)
  have b: "- 32768 \<le> sint (quantize s) \<and> sint (quantize s) \<le> 32767"
  proof (cases s)
    case (Finite y)
    then show ?thesis
      using quantize_spec_range [of y] by (simp add: quantize_Finite sint_int16)
  qed (simp_all add: quantize_def trunc_zero_def)
  have c: "sint (quantize (Finite 0)) = 0" "sint (quantize (Finite 1)) = 32767"
    "sint (quantize (Finite (- 1))) = - 32768" "sint (quantize PosInf) = 32767"
    "sint (quantize NegInf) = - 32768" "sint (quantize NaN) = 0"
    by (simp_all add: quantize_def trunc_zero_def)
  from a b c quantize_spec_range [of x] show ?thesis by simp
qed


section \<open>Text-safe encoding: proofs\<close>

lemma binary_loop_eq: "binary_loop bytes i binary = binary @ fromCharCode (drop i bytes)"
proof (induction bytes i binary rule: binary_loop.induct)
  case (1 bytes i binary)
  show ?case
  proof (cases "i < length bytes")
    case True
    have "drop i bytes = take chunkSize (drop i bytes) @ drop (i + chunkSize) bytes"
      by (metis append_take_drop_id drop_drop add.commute)
    then have "fromCharCode (drop i bytes) =
         fromCharCode (take chunkSize (drop i bytes)) @ fromCharCode (drop (i + chunkSize) bytes)"
      unfolding fromCharCode_def by (metis map_append)
    moreover have "subarray bytes i (min (i + chunkSize) (length bytes)) = take chunkSize (drop i bytes)"
      using True by (simp add: subarray_def min_def)
    ultimately show ?thesis
      using True "1.IH" by (subst binary_loop.simps) simp
  next
    case False
    then show ?thesis by (subst binary_loop.simps) (simp add: fromCharCode_def)
  qed
qed

lemma length_alphabet: "length base64_alphabet = 64"
  by (simp add: base64_alphabet_def)

lemma pad_not_in_alphabet: "CHR ''='' \<notin> set base64_alphabet"
  by (simp add: base64_alphabet_def)

lemma distinct_alphabet: "distinct base64_alphabet"
  by (simp add: base64_alphabet_def)

lemma b64_index_char: "i < 64 \<Longrightarrow> b64_index (b64_char i) = Some i"
  unfolding b64_index_def b64_char_def
  using map_of_zip_nth [of base64_alphabet "[0..<64]" i] distinct_alphabet length_alphabet
  by simp

lemma b64_char_not_pad: "b64_char i \<noteq> CHR ''=''"
  unfolding b64_char_def using pad_not_in_alphabet length_alphabet
  by (metis mod_less_divisor nth_mem zero_less_numeral)

lemma recombine:
  fixes n :: nat
  shows "(n div 262144) * 262144 + (n div 4096 mod 64) * 4096 + (n div 64 mod 64) * 64 + n mod 64 = n"
proof -
  define x where "x = n div 64"
  define y where "y = x div 64"
  define z where "z = y div 64"
  have 1: "n = 64 * x + n mod 64" unfolding x_def by simp
  have 2: "x = 64 * y + x mod 64" unfolding y_def by simp
  have 3: "y = 64 * z + y mod 64" unfolding z_def by simp
  have y: "n div 4096 = y" unfolding y_def x_def by (simp add: div_mult2_eq)
  have z: "n div 262144 = z" unfolding z_def y_def x_def by (simp add: div_mult2_eq)
  show ?thesis unfolding y z x_def[symmetric] using 1 2 3 by linarith
qed

lemma recombine2:
  fixes n :: nat
  shows "(n div 262144) * 4096 + (n div 4096 mod 64) * 64 + n div 64 mod 64 = n div 64"
proof -
  define x where "x = n div 64"
  define y where "y = x div 64"
  define z where "z = y div 64"
  have 2: "x = 64 * y + x mod 64" unfolding y_def by simp
  have 3: "y = 64 * z + y mod 64" unfolding z_def by simp
  have y: "n div 4096 = y" unfolding y_def x_def by (simp add: div_mult2_eq)
  have z: "n div 262144 = z" unfolding z_def y_def x_def by (simp add: div_mult2_eq)
  show ?thesis unfolding y z x_def[symmetric] using 2 3 by linarith
qed

lemma low_byte: "c < 256 \<Longrightarrow> (k * 256 + c) mod 256 = (c::nat)"
  and high_part: "c < 256 \<Longrightarrow> (k * 256 + c) div 256 = (k::nat)"
  by simp_all

lemma bytes3:
  fixes a b c :: nat
  assumes "a < 256" "b < 256" "c < 256"
  shows "(a * 65536 + b * 256 + c) div 65536 = a"
    "(a * 65536 + b * 256 + c) div 256 mod 256 = b"
    "(a * 65536 + b * 256 + c) mod 256 = c"
    "(a * 65536 + b * 256 + c) div 262144 < 64"
proof -
  have e: "a * 65536 + b * 256 + c = (a * 256 + b) * 256 + c" by simp
  show "(a * 65536 + b * 256 + c) div 65536 = a" using assms by simp
  show "(a * 65536 + b * 256 + c) div 256 mod 256 = b"
    using assms by (simp only: e high_part low_byte)
  show "(a * 65536 + b * 256 + c) mod 256 = c" using assms by (simp only: e low_byte)
  show "(a * 65536 + b * 256 + c) div 262144 < 64" using assms by simp
qed

lemma bytes2:
  fixes a b :: nat
  assumes "a < 256" "b < 256"
  shows "(a * 65536 + b * 256) div 64 div 1024 = a"
    "(a * 65536 + b * 256) div 64 div 4 mod 256 = b"
    "(a * 65536 + b * 256) div 262144 < 64"
proof -
  have e: "a * 65536 + b * 256 = (a * 1024 + b * 4) * 64" by simp
  have f: "a * 1024 + b * 4 = (a * 256 + b) * 4" by simp
  show "(a * 65536 + b * 256) div 64 div 1024 = a" unfolding e using assms by simp
  show "(a * 65536 + b * 256) div 64 div 4 mod 256 = b" unfolding e using assms by (simp add: f)
  show "(a * 65536 + b * 256) div 262144 < 64" using assms by simp
qed

lemma bytes1:
  fixes a :: nat
  assumes "a < 256"
  shows "((a * 65536) div 262144 * 64 + (a * 65536) div 4096 mod 64) div 16 = a"
    "(a * 65536) div 262144 < 64"
proof -
  have e: "(a * 65536) div 262144 = a div 4" by simp
  have f: "(a * 65536) div 4096 = a * 16" by simp
  have g: "a * 16 mod 64 = (a mod 4) * 16"
    using mult_mod_right[of 16 a 4] by (simp add: mult.commute)
  have "a div 4 * 64 + (a mod 4) * 16 = a * 16"
    using div_mult_mod_eq[of a 4] by linarith
  then show "((a * 65536) div 262144 * 64 + (a * 65536) div 4096 mod 64) div 16 = a"
    unfolding e f g by simp
  show "(a * 65536) div 262144 < 64" using assms by simp
qed

lemma decode_group4:
  assumes "b64_index c1 = Some i1" "b64_index c2 = Some i2" "b64_index c3 = Some i3"
    "b64_index c4 = Some i4" "c4 \<noteq> CHR ''=''" "base64_decode rest = Some s"
    "m = i1 * 262144 + i2 * 4096 + i3 * 64 + i4"
  shows "base64_decode (c1 # c2 # c3 # c4 # rest) =
         Some (char_of (m div 65536) # char_of (m div 256 mod 256) # char_of (m mod 256) # s)"
  using assms by (simp add: Let_def)

lemma decode_group3:
  assumes "b64_index c1 = Some i1" "b64_index c2 = Some i2" "b64_index c3 = Some i3"
    "c3 \<noteq> CHR ''=''" "m = i1 * 4096 + i2 * 64 + i3"
  shows "base64_decode [c1, c2, c3, CHR ''=''] =
         Some [char_of (m div 1024), char_of (m div 4 mod 256)]"
  using assms by (simp add: Let_def)

lemma decode_group2:
  assumes "b64_index c1 = Some i1" "b64_index c2 = Some i2"
  shows "base64_decode [c1, c2, CHR ''='', CHR ''=''] = Some [char_of ((i1 * 64 + i2) div 16)]"
  using assms by simp

lemma decode1: "base64_decode (btoa [a]) = Some [a]"
proof -
  define n where "n = (of_char a :: nat) * 65536"
  have i1: "n div 262144 < 64" unfolding n_def using bytes1(2)[OF nat_of_char_less_256] .
  have i2: "n div 4096 mod 64 < 64" by simp
  have v: "(n div 262144 * 64 + n div 4096 mod 64) div 16 = of_char a"
    unfolding n_def using bytes1(1)[OF nat_of_char_less_256] .
  have e: "btoa [a] = [b64_char (n div 262144), b64_char (n div 4096 mod 64), CHR ''='', CHR ''='']"
    unfolding n_def by (simp add: Let_def)
  show ?thesis
    unfolding e decode_group2 [OF b64_index_char[OF i1] b64_index_char[OF i2]] v char_of_char ..
qed

lemma decode2: "base64_decode (btoa [a, b]) = Some [a, b]"
proof -
  define n where "n = (of_char a :: nat) * 65536 + of_char b * 256"
  have i1: "n div 262144 < 64"
    unfolding n_def using bytes2(3)[OF nat_of_char_less_256 nat_of_char_less_256] .
  have i2: "n div 4096 mod 64 < 64" and i3: "n div 64 mod 64 < 64" by simp_all
  have m: "n div 64 = n div 262144 * 4096 + n div 4096 mod 64 * 64 + n div 64 mod 64"
    by (rule recombine2 [symmetric])
  have va: "n div 64 div 1024 = of_char a" and vb: "n div 64 div 4 mod 256 = of_char b"
    unfolding n_def using bytes2(1,2)[OF nat_of_char_less_256 nat_of_char_less_256] by auto
  have e: "btoa [a, b] = [b64_char (n div 262144), b64_char (n div 4096 mod 64),
       b64_char (n div 64 mod 64), CHR ''='']"
    unfolding n_def by (simp add: Let_def)
  show ?thesis
    unfolding e decode_group3 [OF b64_index_char[OF i1] b64_index_char[OF i2]
        b64_index_char[OF i3] b64_char_not_pad m] va vb char_of_char ..
qed

lemma decode3:
  assumes "base64_decode (btoa rest) = Some rest"
  shows "base64_decode (btoa (a # b # c # rest)) = Some (a # b # c # rest)"
proof -
  define n where "n = (of_char a :: nat) * 65536 + of_char b * 256 + of_char c"
  have i1: "n div 262144 < 64"
    unfolding n_def
    using bytes3(4)[OF nat_of_char_less_256 nat_of_char_less_256 nat_of_char_less_256] .
  have i2: "n div 4096 mod 64 < 64" and i3: "n div 64 mod 64 < 64" and i4: "n mod 64 < 64"
    by simp_all
  have m: "n = n div 262144 * 262144 + n div 4096 mod 64 * 4096 + n div 64 mod 64 * 64 + n mod 64"
    by (rule recombine [symmetric])
  have va: "n div 65536 = of_char a" and vb: "n div 256 mod 256 = of_char b"
    and vc: "n mod 256 = of_char c"
    unfolding n_def
    using bytes3(1,2,3)[OF nat_of_char_less_256 nat_of_char_less_256 nat_of_char_less_256]
    by auto
  have e: "btoa (a # b # c # rest) = b64_char (n div 262144) # b64_char (n div 4096 mod 64) #
       b64_char (n div 64 mod 64) # b64_char (n mod 64) # btoa rest"
    unfolding n_def by (simp add: Let_def)
  show ?thesis
    unfolding e decode_group4 [OF b64_index_char[OF i1] b64_index_char[OF i2]
        b64_index_char[OF i3] b64_index_char[OF i4] b64_char_not_pad assms m] va vb vc
      char_of_char ..
qed

lemma base64_decode_btoa: "base64_decode (btoa s) = Some s"
proof (induction s rule: btoa.induct)
  case 1
  show ?case by simp
next
  case (2 a)
  show ?case by (rule decode1)
next
  case (3 a b)
  show ?case by (rule decode2)
next
  case (4 a b c rest)
  from 4 [OF refl] show ?case by (rule decode3)
qed

lemma charCode_fromCharCode:
  "map (\<lambda>c. word_of_nat (of_char c)) (fromCharCode bs) = (bs :: 8 word list)"
proof -
  have "word_of_nat (of_char (char_of (unat b) :: char)) = b" for b :: "8 word"
  proof -
    have "unat b < 256" using unsigned_less [of b] by simp
    then show ?thesis by simp
  qed
  then show ?thesis by (simp add: fromCharCode_def map_idI)
qed


lemma decode_bytes_encode_bytes: "decode_bytes (encode_bytes B) = Some B"
  by (simp add: decode_bytes_def encode_bytes_def binary_loop_eq base64_decode_btoa
      charCode_fromCharCode)

text \<open>
  Claim C3.  For every byte sequence \<open>B\<close>, the text produced by the callback's encoding
  (the windowed loop over at most 8192 bytes at a time, then base64) decodes to
  \<open>B\<close> again.  The statement has no condition on the length of \<open>B\<close>: it covers
  the lengths that are multiples of 8192 and those that are not.
\<close>

theorem encode_decode_roundtrip:
  "decode_bytes (encode_bytes B) = Some B
   \<and> decode_bytes (encode_bytes (replicate (k * chunkSize) b)) = Some (replicate (k * chunkSize) b)
   \<and> decode_bytes (encode_bytes (replicate (k * chunkSize) b @ [b'])) = Some (replicate (k * chunkSize) b @ [b'])"
proof -
  have round: "decode_bytes (encode_bytes X) = Some X" for X
  proof -
    have windows: "binary_loop X 0 [] = fromCharCode X"
      by (simp add: binary_loop_eq)
    have "base64_decode (encode_bytes X) = Some (fromCharCode X)"
      unfolding encode_bytes_def windows by (rule base64_decode_btoa)
    then show ?thesis
      by (simp add: decode_bytes_def charCode_fromCharCode)
  qed
  show ?thesis
    by (intro conjI) (rule round)+
qed


section \<open>Batch mode: proofs\<close>

lemma send_request: "httpOut (sendAudioToBackend p now audioBlob fetched s) = httpOut s @ [translate_request p audioBlob]"
  by (simp add: sendAudioToBackend_def Let_def split: sum.splits)

lemma send_clears_flag: "isProcessing (sendAudioToBackend p now audioBlob fetched s) = False"
  by (simp add: sendAudioToBackend_def Let_def split: sum.splits)

lemma send_frame:
  "sendAudioToBackend p now audioBlob fetched s
     \<lparr>httpOut := httpOut s, onTranslationCalls := onTranslationCalls s,
      onErrorCalls := onErrorCalls s, console := console s\<rparr>
   = s\<lparr>isProcessing := False\<rparr>"
  by (simp add: sendAudioToBackend_def Let_def split: sum.splits)

lemma send_delivers:
  "translate_try now fetched = Inr result \<Longrightarrow>
   onTranslationCalls (sendAudioToBackend p now audioBlob fetched s) = onTranslationCalls s @ [result]
   \<and> onErrorCalls (sendAudioToBackend p now audioBlob fetched s) = onErrorCalls s"
  by (simp add: sendAudioToBackend_def Let_def)

lemma send_reports:
  "translate_try now fetched = Inl e \<Longrightarrow>
   onTranslationCalls (sendAudioToBackend p now audioBlob fetched s) = onTranslationCalls s
   \<and> onErrorCalls (sendAudioToBackend p now audioBlob fetched s)
       = onErrorCalls s @ (if onError p then [message_or_generic e] else [])"
  by (simp add: sendAudioToBackend_def Let_def)

text \<open>
  Claim C7.  One call of \<^verbatim>\<open>sendAudioToBackend\<close> issues exactly one request, a
  \<^verbatim>\<open>POST /api/translate\<close> carrying the whole audio blob and the source and target
  language.  On a success response (status 2xx, a JSON body with \<open>success\<close> set and its
  metrics) it hands exactly one result, with \<open>is_final\<close> set, to \<^verbatim>\<open>onTranslation\<close>
  and reports no error.  In every other outcome it delivers no result and reports one
  message through \<^verbatim>\<open>onError\<close>, when that callback is supplied: the \<open>error\<close> field
  of the response body, or \<open>Translation failed\<close> when the body has none; the message of
  the exception when the body cannot be parsed or the request itself fails; and
  \<open>Failed to translate audio\<close> when the value thrown is not an error object.  In every
  outcome the processing flag is cleared and nothing else of the state is changed apart
  from the recorded outputs, so the call can be repeated.
\<close>

theorem sendAudioToBackend_one_request_one_outcome:
  fixes s :: recorder and p :: props and now :: timestamp and audioBlob :: blob
    and fetched :: "thrown + api_data response"
  defines "s' \<equiv> sendAudioToBackend p now audioBlob fetched s"
  shows
    "httpOut s' = httpOut s @ [POST ''/api/translate''
        [file_field ''audio'' audioBlob ''recording.webm'',
         text_field ''source_lang'' (sourceLang p), text_field ''target_lang'' (targetLang p)]]
     \<and> isProcessing s' = False
     \<and> s'\<lparr>httpOut := httpOut s, onTranslationCalls := onTranslationCalls s,
           onErrorCalls := onErrorCalls s, console := console s\<rparr> = s\<lparr>isProcessing := False\<rparr>
     \<and> (fetched = Inr r \<and> response_ok r \<and> body r = Parsed d \<and> d_success d
          \<and> d_metrics d = Some (l, c) \<longrightarrow>
          onTranslationCalls s' = onTranslationCalls s @
            [\<lparr>original_text = d_original_text d, translated_text = d_translated_text d,
              audio_base64 = d_audio_base64 d, sample_rate = d_sample_rate d,
              latency_ms = l, confidence = c, timestamp = now, is_final = Some True\<rparr>]
          \<and> onErrorCalls s' = onErrorCalls s)
     \<and> (fetched = Inr r \<and> body r = Parsed d \<and> (\<not> response_ok r \<or> \<not> d_success d) \<longrightarrow>
          onTranslationCalls s' = onTranslationCalls s
          \<and> onErrorCalls s' = onErrorCalls s @
               (if onError p
                then [case d_error d of None \<Rightarrow> ''Translation failed''
                      | Some m \<Rightarrow> if m = [] then ''Translation failed'' else m]
                else []))
     \<and> (fetched = Inr r \<and> body r = Unparsable m \<longrightarrow>
          onTranslationCalls s' = onTranslationCalls s
          \<and> onErrorCalls s' = onErrorCalls s @ (if onError p then [m] else []))
     \<and> (fetched = Inl e \<longrightarrow>
          onTranslationCalls s' = onTranslationCalls s
          \<and> onErrorCalls s' = onErrorCalls s @
               (if onError p
                then [case e of Error m \<Rightarrow> m | DOMException n m \<Rightarrow> m
                      | NonError \<Rightarrow> ''Failed to translate audio'']
                else []))
     \<and> length (onTranslationCalls s') + length (onErrorCalls s')
         \<le> length (onTranslationCalls s) + length (onErrorCalls s) + 1"
proof -
  have a: "httpOut s' = httpOut s @ [POST ''/api/translate''
        [file_field ''audio'' audioBlob ''recording.webm'',
         text_field ''source_lang'' (sourceLang p), text_field ''target_lang'' (targetLang p)]]"
    unfolding s'_def send_request translate_request_def ..
  have b: "isProcessing s' = False"
    unfolding s'_def by (rule send_clears_flag)
  have f: "s'\<lparr>httpOut := httpOut s, onTranslationCalls := onTranslationCalls s,
           onErrorCalls := onErrorCalls s, console := console s\<rparr> = s\<lparr>isProcessing := False\<rparr>"
    unfolding s'_def by (rule send_frame)
  have c1: "onTranslationCalls s' = onTranslationCalls s @
            [\<lparr>original_text = d_original_text d, translated_text = d_translated_text d,
              audio_base64 = d_audio_base64 d, sample_rate = d_sample_rate d,
              latency_ms = l, confidence = c, timestamp = now, is_final = Some True\<rparr>]
          \<and> onErrorCalls s' = onErrorCalls s"
    if "fetched = Inr r" "response_ok r" "body r = Parsed d" "d_success d" "d_metrics d = Some (l, c)"
    unfolding s'_def using that by (intro send_delivers) (simp add: translate_try_def)
  have c2: "onTranslationCalls s' = onTranslationCalls s
          \<and> onErrorCalls s' = onErrorCalls s @
               (if onError p
                then [case d_error d of None \<Rightarrow> ''Translation failed''
                      | Some m \<Rightarrow> if m = [] then ''Translation failed'' else m]
                else [])"
    if "fetched = Inr r" "body r = Parsed d" "\<not> response_ok r \<or> \<not> d_success d"
  proof -
    have "translate_try now fetched = Inl (Error (or_translation_failed (d_error d)))"
      using that by (auto simp: translate_try_def)
    from send_reports [OF this] show ?thesis
      unfolding s'_def by (simp add: or_translation_failed_def)
  qed
  have c3: "onTranslationCalls s' = onTranslationCalls s
          \<and> onErrorCalls s' = onErrorCalls s @ (if onError p then [m] else [])"
    if "fetched = Inr r" "body r = Unparsable m"
  proof -
    have "translate_try now fetched = Inl (Error m)"
      using that by (simp add: translate_try_def)
    from send_reports [OF this] show ?thesis
      unfolding s'_def by simp
  qed
  have c4: "onTranslationCalls s' = onTranslationCalls s
          \<and> onErrorCalls s' = onErrorCalls s @
               (if onError p
                then [case e of Error m \<Rightarrow> m | DOMException n m \<Rightarrow> m
                      | NonError \<Rightarrow> ''Failed to translate audio'']
                else [])"
    if "fetched = Inl e"
  proof -
    have "translate_try now fetched = Inl e"
      using that by (simp add: translate_try_def)
    from send_reports [OF this] show ?thesis
      unfolding s'_def by (cases e) simp_all
  qed
  have g: "length (onTranslationCalls s') + length (onErrorCalls s')
         \<le> length (onTranslationCalls s) + length (onErrorCalls s) + 1"
  proof (cases "translate_try now fetched")
    case (Inl e)
    from send_reports [OF this] show ?thesis unfolding s'_def by simp
  next
    case (Inr result)
    from send_delivers [OF this] show ?thesis unfolding s'_def by simp
  qed
  from a b f c1 c2 c3 c4 g show ?thesis by blast
qed


theorem sendAudioToBackend_witness:
  "(let p = \<lparr>sourceLang = ''en'', targetLang = ''es'', onError = True\<rparr>;
        failure = Inr \<lparr>status = 500, body = Parsed \<lparr>d_success = False,
                    d_error = Some ''Model not loaded'', d_original_text = [],
                    d_translated_text = [], d_audio_base64 = [], d_sample_rate = 0,
                    d_metrics = None\<rparr>\<rparr>;
        success = Inr \<lparr>status = 200, body = Parsed \<lparr>d_success = True,
                    d_error = None, d_original_text = ''hello'',
                    d_translated_text = ''hola'', d_audio_base64 = ''UklGRg=='',
                    d_sample_rate = 22050, d_metrics = Some (420, 0.9)\<rparr>\<rparr>;
        s1 = sendAudioToBackend p (Millis 1) [1, 2, 3] failure initial_recorder;
        s2 = sendAudioToBackend p (Millis 2) [1, 2, 3] success s1
    in onErrorCalls s1 = [''Model not loaded''] \<and> onTranslationCalls s1 = []
       \<and> \<not> isProcessing s1 \<and> length (httpOut s1) = 1
       \<and> map translated_text (onTranslationCalls s2) = [''hola'']
       \<and> map is_final (onTranslationCalls s2) = [Some True]
       \<and> onErrorCalls s2 = [''Model not loaded''] \<and> \<not> isProcessing s2
       \<and> length (httpOut s2) = 2)"
proof -
  define p where "p = \<lparr>sourceLang = ''en'', targetLang = ''es'', onError = True\<rparr>"
  define d1 where "d1 = \<lparr>d_success = False,
                    d_error = Some ''Model not loaded'', d_original_text = [],
                    d_translated_text = [], d_audio_base64 = [], d_sample_rate = 0,
                    d_metrics = None\<rparr>"
  define d2 where "d2 = \<lparr>d_success = True,
                    d_error = None, d_original_text = ''hello'',
                    d_translated_text = ''hola'', d_audio_base64 = ''UklGRg=='',
                    d_sample_rate = 22050, d_metrics = Some (420, 0.9)\<rparr>"
  define r1 where "r1 = \<lparr>status = 500, body = Parsed d1\<rparr>"
  define r2 where "r2 = \<lparr>status = 200, body = Parsed d2\<rparr>"
  define s1 where "s1 = sendAudioToBackend p (Millis 1) [1, 2, 3] (Inr r1) initial_recorder"
  define s2 where "s2 = sendAudioToBackend p (Millis 2) [1, 2, 3] (Inr r2) s1"
  note A = sendAudioToBackend_one_request_one_outcome
      [where p = p and now = "Millis 1" and audioBlob = "[1, 2, 3]" and fetched = "Inr r1"
         and s = initial_recorder and r = r1 and d = d1, folded s1_def]
  note B = sendAudioToBackend_one_request_one_outcome
      [where p = p and now = "Millis 2" and audioBlob = "[1, 2, 3]" and fetched = "Inr r2"
         and s = s1 and r = r2 and d = d2 and l = 420 and c = "0.9", folded s2_def]
  have h1: "\<not> response_ok r1" "body r1 = Parsed d1" "d_error d1 = Some ''Model not loaded''"
    "onError p"
    by (simp_all add: r1_def d1_def p_def response_ok_def)
  have h2: "response_ok r2" "body r2 = Parsed d2" "d_success d2" "d_metrics d2 = Some (420, 0.9)"
    "translated_text \<lparr>original_text = d_original_text d2, translated_text = d_translated_text d2,
              audio_base64 = d_audio_base64 d2, sample_rate = d_sample_rate d2,
              latency_ms = 420, confidence = 0.9, timestamp = Millis 2, is_final = Some True\<rparr> = ''hola''"
    by (simp_all add: r2_def d2_def response_ok_def)
  have i: "onTranslationCalls initial_recorder = []" "onErrorCalls initial_recorder = []"
    "httpOut initial_recorder = []"
    by (simp_all add: initial_recorder_def)
  have "onErrorCalls s1 = [''Model not loaded''] \<and> onTranslationCalls s1 = []
       \<and> \<not> isProcessing s1 \<and> length (httpOut s1) = 1"
    using A h1 i by simp
  moreover have "map translated_text (onTranslationCalls s2) = [''hola'']
       \<and> map is_final (onTranslationCalls s2) = [Some True]
       \<and> onErrorCalls s2 = [''Model not loaded''] \<and> \<not> isProcessing s2
       \<and> length (httpOut s2) = 2"
    using B h2 calculation by simp
  ultimately show ?thesis
    unfolding Let_def s1_def s2_def r1_def r2_def d1_def d2_def p_def by simp
qed



section \<open>AudioChunker: proofs\<close>

lemma length_int16_bytes: "length (Uint8Array_of_Int16Array ws) = 2 * length ws"
  by (induction ws) (simp_all add: Uint8Array_of_Int16Array_def int16_bytes_def)

lemma length_pcm_bytes: "length (pcm_bytes xs) = 2 * length xs"
  by (simp add: pcm_bytes_def length_int16_bytes)

lemma pcm_bytes_Nil: "pcm_bytes [] = []"
  by (simp add: pcm_bytes_def Uint8Array_of_Int16Array_def)

lemma pcm_bytes_append: "pcm_bytes (xs @ ys) = pcm_bytes xs @ pcm_bytes ys"
  by (simp add: pcm_bytes_def Uint8Array_of_Int16Array_def)

lemma chunk_bytes_encode: "chunk_bytes (audio_chunk (encode_chunk combined) sr f) = pcm_bytes combined"
  by (simp add: encode_chunk_def decode_bytes_encode_bytes)

lemma chunk_samples_encode:
  "chunk_samples (audio_chunk (encode_chunk combined) sr f) = length combined"
  by (simp add: chunk_samples_def chunk_bytes_encode length_pcm_bytes del: chunk_bytes.simps)

lemma emitted_append:
  "emitted_samples (xs @ ys) = emitted_samples xs + emitted_samples ys"
  "emitted_bytes (xs @ ys) = emitted_bytes xs @ emitted_bytes ys"
  by (simp_all add: emitted_samples_def emitted_bytes_def)

lemma length_concat_sum: "length (concat xss) = sum_list (map length xss)"
  by (induction xss) simp_all

text \<open>One callback while the socket is connected.\<close>

lemma onaudioprocess_connected:
  assumes "onaudioprocess sr True buf frame = (out, buf')"
  shows "emitted_bytes out @ pcm_bytes (concat buf') = pcm_bytes (concat buf) @ pcm_bytes frame"
    and "emitted_samples out + length (concat buf') = length (concat buf) + length frame"
    and "0 < samplesPerChunk sr \<Longrightarrow> int (length (concat buf')) < samplesPerChunk sr"
    and "int (length (concat buf)) < samplesPerChunk sr \<Longrightarrow> \<forall>c \<in> set out.
           is_audio_chunk c \<and> samplesPerChunk sr \<le> int (chunk_samples c)
           \<and> int (chunk_samples c) < samplesPerChunk sr + int (length frame)"
  using assms
  by (auto simp: onaudioprocess_def Let_def emitted_bytes_def emitted_samples_def
      chunk_bytes_encode chunk_samples_encode pcm_bytes_append length_concat_sum
      pcm_bytes_Nil simp del: chunk_bytes.simps split: if_splits)


lemma audio_callback_frame:
  "(audio_callback frame s)\<lparr>socketOut := a, audioProcessor := b\<rparr> = s\<lparr>socketOut := a, audioProcessor := b\<rparr>"
  by (simp add: audio_callback_def split: option.splits prod.splits)

lemma capture_frame:
  "(capture frames s)\<lparr>socketOut := a, audioProcessor := b\<rparr> = s\<lparr>socketOut := a, audioProcessor := b\<rparr>"
proof (induction frames arbitrary: s)
  case Nil
  show ?case by (simp add: capture_def)
next
  case (Cons f fs)
  have "(capture (f # fs) s)\<lparr>socketOut := a, audioProcessor := b\<rparr>
      = (capture fs (audio_callback f s))\<lparr>socketOut := a, audioProcessor := b\<rparr>"
    by (simp add: capture_def)
  also have "\<dots> = (audio_callback f s)\<lparr>socketOut := a, audioProcessor := b\<rparr>"
    by (rule Cons.IH)
  also have "\<dots> = s\<lparr>socketOut := a, audioProcessor := b\<rparr>"
    by (rule audio_callback_frame)
  finally show ?case .
qed

lemma capture_fields:
  "mode (capture frames s) = mode s" "socketConnected (capture frames s) = socketConnected s"
  "micLive (capture frames s) = micLive s" "isRecording (capture frames s) = isRecording s"
  "mediaRecorderActive (capture frames s) = mediaRecorderActive s"
  "audioContextOpen (capture frames s) = audioContextOpen s"
proof -
  have e: "(capture frames s)\<lparr>socketOut := [], audioProcessor := None\<rparr>
           = s\<lparr>socketOut := [], audioProcessor := None\<rparr>"
    by (rule capture_frame)
  show "mode (capture frames s) = mode s"
    using arg_cong [OF e, of mode] by simp
  show "socketConnected (capture frames s) = socketConnected s"
    using arg_cong [OF e, of socketConnected] by simp
  show "micLive (capture frames s) = micLive s"
    using arg_cong [OF e, of micLive] by simp
  show "isRecording (capture frames s) = isRecording s"
    using arg_cong [OF e, of isRecording] by simp
  show "mediaRecorderActive (capture frames s) = mediaRecorderActive s"
    using arg_cong [OF e, of mediaRecorderActive] by simp
  show "audioContextOpen (capture frames s) = audioContextOpen s"
    using arg_cong [OF e, of audioContextOpen] by simp
qed

lemma audio_callback_connected:
  assumes "audioProcessor s = Some (sr, buf)" "socketConnected s"
  obtains out buf' where "onaudioprocess sr True buf frame = (out, buf')"
    "audioProcessor (audio_callback frame s) = Some (sr, buf')"
    "socketOut (audio_callback frame s) = socketOut s @ out"
    "socketConnected (audio_callback frame s)"
  using assms by (cases "onaudioprocess sr True buf frame") (simp add: audio_callback_def)

lemma capture_connected:
  assumes "audioProcessor s = Some (sr, buf)" "socketConnected s"
  shows "\<exists>out buf'.
           audioProcessor (capture frames s) = Some (sr, buf')
         \<and> socketOut (capture frames s) = socketOut s @ out
         \<and> emitted_bytes out @ pcm_bytes (concat buf') = pcm_bytes (concat buf) @ pcm_bytes (concat frames)
         \<and> emitted_samples out + length (concat buf') = length (concat buf) + length (concat frames)
         \<and> (0 < samplesPerChunk sr \<longrightarrow> int (length (concat buf)) < samplesPerChunk sr \<longrightarrow>
              int (length (concat buf')) < samplesPerChunk sr
              \<and> ((\<forall>f \<in> set frames. length f = F) \<longrightarrow>
                   (\<forall>c \<in> set out. is_audio_chunk c \<and> samplesPerChunk sr \<le> int (chunk_samples c)
                      \<and> int (chunk_samples c) < samplesPerChunk sr + int F)))"
  using assms
proof (induction frames arbitrary: s buf)
  case Nil
  then show ?case by (simp add: capture_def emitted_bytes_def emitted_samples_def pcm_bytes_Nil)
next
  case (Cons f fs)
  from Cons.prems obtain out1 buf1 where
    o: "onaudioprocess sr True buf f = (out1, buf1)"
    and a: "audioProcessor (audio_callback f s) = Some (sr, buf1)"
    and b: "socketOut (audio_callback f s) = socketOut s @ out1"
    and c: "socketConnected (audio_callback f s)"
    by (rule audio_callback_connected)
  note step = onaudioprocess_connected [OF o]
  from Cons.IH [OF a c] obtain out2 buf2 where
    r1: "audioProcessor (capture fs (audio_callback f s)) = Some (sr, buf2)"
    and r2: "socketOut (capture fs (audio_callback f s)) = socketOut (audio_callback f s) @ out2"
    and r3: "emitted_bytes out2 @ pcm_bytes (concat buf2) = pcm_bytes (concat buf1) @ pcm_bytes (concat fs)"
    and r4: "emitted_samples out2 + length (concat buf2) = length (concat buf1) + length (concat fs)"
    and r5: "0 < samplesPerChunk sr \<longrightarrow> int (length (concat buf1)) < samplesPerChunk sr \<longrightarrow>
              int (length (concat buf2)) < samplesPerChunk sr
              \<and> ((\<forall>f \<in> set fs. length f = F) \<longrightarrow>
                   (\<forall>c \<in> set out2. is_audio_chunk c \<and> samplesPerChunk sr \<le> int (chunk_samples c)
                      \<and> int (chunk_samples c) < samplesPerChunk sr + int F))"
    by blast
  have e: "capture (f # fs) s = capture fs (audio_callback f s)"
    by (simp add: capture_def)
  have g1: "audioProcessor (capture (f # fs) s) = Some (sr, buf2)"
    unfolding e by (rule r1)
  have g2: "socketOut (capture (f # fs) s) = socketOut s @ (out1 @ out2)"
    unfolding e r2 b by simp
  have g3: "emitted_bytes (out1 @ out2) @ pcm_bytes (concat buf2)
      = pcm_bytes (concat buf) @ pcm_bytes (concat (f # fs))"
  proof -
    have "emitted_bytes (out1 @ out2) @ pcm_bytes (concat buf2)
        = emitted_bytes out1 @ (emitted_bytes out2 @ pcm_bytes (concat buf2))"
      by (simp add: emitted_append)
    also have "\<dots> = (emitted_bytes out1 @ pcm_bytes (concat buf1)) @ pcm_bytes (concat fs)"
      unfolding r3 by simp
    also have "\<dots> = (pcm_bytes (concat buf) @ pcm_bytes f) @ pcm_bytes (concat fs)"
      unfolding step(1) ..
    finally show ?thesis by (simp add: pcm_bytes_append)
  qed
  have g4: "emitted_samples (out1 @ out2) + length (concat buf2)
      = length (concat buf) + length (concat (f # fs))"
    using r4 step(2) by (simp add: emitted_append)
  have g5: "int (length (concat buf2)) < samplesPerChunk sr
              \<and> ((\<forall>f' \<in> set (f # fs). length f' = F) \<longrightarrow>
                   (\<forall>c \<in> set (out1 @ out2). is_audio_chunk c \<and> samplesPerChunk sr \<le> int (chunk_samples c)
                      \<and> int (chunk_samples c) < samplesPerChunk sr + int F))"
    if pos: "0 < samplesPerChunk sr" and small: "int (length (concat buf)) < samplesPerChunk sr"
  proof -
    from step(3) [OF pos] have s1: "int (length (concat buf1)) < samplesPerChunk sr" .
    from r5 pos s1 have t: "int (length (concat buf2)) < samplesPerChunk sr"
      and u: "(\<forall>f \<in> set fs. length f = F) \<longrightarrow>
                   (\<forall>c \<in> set out2. is_audio_chunk c \<and> samplesPerChunk sr \<le> int (chunk_samples c)
                      \<and> int (chunk_samples c) < samplesPerChunk sr + int F)"
      by blast+
    from step(4) [OF small] have v: "\<forall>c \<in> set out1.
           is_audio_chunk c \<and> samplesPerChunk sr \<le> int (chunk_samples c)
           \<and> int (chunk_samples c) < samplesPerChunk sr + int (length f)" .
    show ?thesis using t u v by auto
  qed
  show ?case
    using g1 g2 g3 g4 g5 by blast
qed


lemma startRecording_realtime:
  assumes "mediaDevicesAvailable env" "getUserMedia env = Inr u" "mode s = realtime" "socketConnected s"
  shows "audioProcessor (startRecording p env s) = Some (contextSampleRate env, [])"
    "socketOut (startRecording p env s) = socketOut s @ [start_translation (sourceLang p) (targetLang p)]"
    "socketConnected (startRecording p env s)" "mode (startRecording p env s) = realtime"
    "micLive (startRecording p env s)" "isRecording (startRecording p env s)"
  using assms by (simp_all add: startRecording_def Let_def)

lemma stopRecording_realtime:
  assumes "mode s = realtime" "socketConnected s" "micLive s"
  shows "socketOut (stopRecording s) = socketOut s @ [stop_translation]"
    "audioProcessor (stopRecording s) = None" "\<not> isRecording (stopRecording s)"
  using assms by (simp_all add: stopRecording_def Let_def)

lemma length_concat_uniform:
  "\<forall>f \<in> set frames. length f = F \<Longrightarrow> length (concat frames) = length frames * F"
  by (induction frames) simp_all

lemma emitted_singleton:
  "emitted_samples [start_translation a b] = 0" "emitted_bytes [start_translation a b] = []"
  "emitted_samples [stop_translation] = 0" "emitted_bytes [stop_translation] = []"
  by (simp_all add: emitted_samples_def emitted_bytes_def chunk_samples_def)

lemma emitted_Cons:
  "emitted_samples (m # ms) = chunk_samples m + emitted_samples ms"
  "emitted_bytes (m # ms) = chunk_bytes m @ emitted_bytes ms"
  by (simp_all add: emitted_samples_def emitted_bytes_def)

lemma emitted_Nil: "emitted_samples [] = 0" "emitted_bytes [] = []"
  by (simp_all add: emitted_samples_def emitted_bytes_def)

lemma chunk_samples_control:
  "chunk_samples (start_translation a b) = 0" "chunk_samples stop_translation = 0"
  by (simp_all add: chunk_samples_def)

text \<open>
  Claim C1, as amended.  In a streaming session whose socket is connected, with \<open>N\<close>
  frames of \<open>F\<close> samples each and a positive threshold
  \<open>T = floor (2.0 * sampleRate)\<close>: the samples emitted in audio chunks together with the
  samples still held in the buffer when the session is stopped are \<open>N * F\<close>, and they are
  the captured samples in capture order, quantised, none skipped and none twice; the
  buffer holds fewer than \<open>T\<close> samples then; every emitted chunk has at least \<open>T\<close> and
  fewer than \<open>T + F\<close> samples; stopping emits \<open>stop_translation\<close> and nothing else, and
  what the buffer held is dropped with the processor node, not flushed.
\<close>

theorem streaming_session_sample_accounting:
  fixes s :: recorder and p :: props and env :: start_env and frames :: "jsnum list list"
  defines "rec \<equiv> capture frames (startRecording p env s)"
  defines "fin \<equiv> streaming_session p env frames s"
  defines "T \<equiv> samplesPerChunk (contextSampleRate env)"
  assumes ok: "mediaDevicesAvailable env" "getUserMedia env = Inr ()"
    and rt: "mode s = realtime" "socketConnected s"
    and uniform: "\<forall>f \<in> set frames. length f = F" and pos: "0 < T"
  shows "emitted_samples (socketOut fin) + length (buffered rec)
           = emitted_samples (socketOut s) + length frames * F
       \<and> emitted_bytes (socketOut fin) @ pcm_bytes (buffered rec)
           = emitted_bytes (socketOut s) @ pcm_bytes (concat frames)
       \<and> int (length (buffered rec)) < T
       \<and> (\<forall>c \<in> set (drop (length (socketOut s)) (socketOut fin)). is_audio_chunk c \<longrightarrow>
             T \<le> int (chunk_samples c) \<and> int (chunk_samples c) < T + int F)
       \<and> socketOut fin = socketOut rec @ [stop_translation]
       \<and> buffered fin = []"
proof -
  let ?s1 = "startRecording p env s"
  note st = startRecording_realtime [OF ok rt, of p]
  from capture_connected [OF st(1) st(3), of frames F] obtain out buf' where
    c1: "audioProcessor rec = Some (contextSampleRate env, buf')"
    and c2: "socketOut rec = socketOut ?s1 @ out"
    and c3: "emitted_bytes out @ pcm_bytes (concat buf') = pcm_bytes (concat []) @ pcm_bytes (concat frames)"
    and c4: "emitted_samples out + length (concat buf') = length (concat ([]::jsnum list list)) + length (concat frames)"
    and c5: "0 < T \<longrightarrow> int (length (concat ([]::jsnum list list))) < T \<longrightarrow>
              int (length (concat buf')) < T
              \<and> ((\<forall>f \<in> set frames. length f = F) \<longrightarrow>
                   (\<forall>c \<in> set out. is_audio_chunk c \<and> T \<le> int (chunk_samples c)
                      \<and> int (chunk_samples c) < T + int F))"
    unfolding rec_def T_def by blast
  have b: "buffered rec = concat buf'"
    by (simp add: buffered_def c1)
  have f: "fin = stopRecording rec"
    by (simp add: fin_def rec_def streaming_session_def)
  have "mode rec = realtime" "socketConnected rec" "micLive rec"
    unfolding rec_def capture_fields using st by simp_all
  note sp = stopRecording_realtime [OF this]
  have so: "socketOut fin = socketOut s @ [start_translation (sourceLang p) (targetLang p)] @ out @ [stop_translation]"
    unfolding f sp(1) c2 st(2) by simp
  have g1: "emitted_samples (socketOut fin) + length (buffered rec)
           = emitted_samples (socketOut s) + length frames * F"
    using c4 by (simp add: so b emitted_append emitted_singleton emitted_Cons
        emitted_Nil chunk_samples_control length_concat_uniform [OF uniform])
  have g2: "emitted_bytes (socketOut fin) @ pcm_bytes (buffered rec)
           = emitted_bytes (socketOut s) @ pcm_bytes (concat frames)"
    using c3 by (simp add: so b emitted_append emitted_singleton emitted_Cons emitted_Nil pcm_bytes_Nil)
  from c5 pos uniform have g3: "int (length (buffered rec)) < T"
    and ch: "\<forall>c \<in> set out. is_audio_chunk c \<and> T \<le> int (chunk_samples c)
                      \<and> int (chunk_samples c) < T + int F"
    unfolding b by simp_all
  have g4: "\<forall>c \<in> set (drop (length (socketOut s)) (socketOut fin)). is_audio_chunk c \<longrightarrow>
             T \<le> int (chunk_samples c) \<and> int (chunk_samples c) < T + int F"
    using ch by (auto simp: so)
  have g5: "socketOut fin = socketOut rec @ [stop_translation]"
    unfolding f by (rule sp(1))
  have g6: "buffered fin = []"
    unfolding f by (simp add: buffered_def sp(2))
  from g1 g2 g3 g4 g5 g6 show ?thesis by blast
qed

theorem streaming_session_sample_accounting_witness:
  "(let p = \<lparr>sourceLang = ''en'', targetLang = ''es'', onError = True\<rparr>;
        env = \<lparr>mediaDevicesAvailable = True, getUserMedia = Inr (), contextSampleRate = 48000\<rparr>;
        frames = replicate 24 (replicate 4096 (Finite 0));
        s = initial_recorder\<lparr>isConnected := True, socketConnected := True\<rparr>
    in emitted_samples (socketOut (streaming_session p env frames s))
         + length (buffered (capture frames (startRecording p env s))) = 24 * 4096
       \<and> int (length (buffered (capture frames (startRecording p env s)))) < 96000
       \<and> buffered (streaming_session p env frames s) = [])"
proof -
  define p where "p = \<lparr>sourceLang = ''en'', targetLang = ''es'', onError = True\<rparr>"
  define env where
    "env = \<lparr>mediaDevicesAvailable = True, getUserMedia = Inr (), contextSampleRate = 48000\<rparr>"
  define frames where "frames = replicate 24 (replicate 4096 (Finite 0))"
  define s where "s = initial_recorder\<lparr>isConnected := True, socketConnected := True\<rparr>"
  have h: "mediaDevicesAvailable env" "getUserMedia env = Inr ()" "mode s = realtime"
    "socketConnected s" "\<forall>f \<in> set frames. length f = 4096"
    "0 < samplesPerChunk (contextSampleRate env)"
    by (simp_all add: env_def s_def frames_def initial_recorder_def samplesPerChunk_def
        CHUNK_DURATION_def)
  have t: "samplesPerChunk (contextSampleRate env) = 96000"
    by (simp add: env_def samplesPerChunk_def CHUNK_DURATION_def)
  have e: "emitted_samples (socketOut s) = 0" "length frames = 24"
    by (simp_all add: s_def initial_recorder_def emitted_samples_def frames_def)
  note r = streaming_session_sample_accounting [OF h, of p, unfolded t e]
  have "emitted_samples (socketOut (streaming_session p env frames s))
         + length (buffered (capture frames (startRecording p env s))) = 24 * 4096"
    using r [THEN conjunct1] by simp
  moreover have "int (length (buffered (capture frames (startRecording p env s)))) < 96000"
    using r [THEN conjunct2, THEN conjunct2, THEN conjunct1] .
  moreover have "buffered (streaming_session p env frames s) = []"
    using r by blast
  ultimately have "emitted_samples (socketOut (streaming_session p env frames s))
         + length (buffered (capture frames (startRecording p env s))) = 24 * 4096
       \<and> int (length (buffered (capture frames (startRecording p env s)))) < 96000
       \<and> buffered (streaming_session p env frames s) = []"
    by blast
  then show ?thesis
    unfolding Let_def p_def env_def frames_def s_def .
qed

text \<open>
  Claim C1 as stated fails: one frame of 4096 samples at 48000 Hz stays below the
  threshold of 96000, and stopping the session emits no audio chunk for it: no sample of
  the 4096 captured is emitted.
\<close>

theorem streaming_session_no_flush_counterexample:
  "socketOut (streaming_session
       \<lparr>sourceLang = ''en'', targetLang = ''es'', onError = True\<rparr>
       \<lparr>mediaDevicesAvailable = True, getUserMedia = Inr (), contextSampleRate = 48000\<rparr>
       [replicate 4096 (Finite 0)]
       (initial_recorder\<lparr>isConnected := True, socketConnected := True\<rparr>))
     = [start_translation ''en'' ''es'', stop_translation]
   \<and> emitted_samples (socketOut (streaming_session
       \<lparr>sourceLang = ''en'', targetLang = ''es'', onError = True\<rparr>
       \<lparr>mediaDevicesAvailable = True, getUserMedia = Inr (), contextSampleRate = 48000\<rparr>
       [replicate 4096 (Finite 0)]
       (initial_recorder\<lparr>isConnected := True, socketConnected := True\<rparr>)))
   \<noteq> 1 * 4096"
  by (simp add: streaming_session_def capture_def startRecording_def audio_callback_def
      onaudioprocess_def samplesPerChunk_def CHUNK_DURATION_def stopRecording_def
      initial_recorder_def Let_def emitted_samples_def chunk_samples_def)



section \<open>Starting a recording: proofs\<close>

lemma start_catch_frame:
  "(start_catch p error s)\<lparr>onErrorCalls := onErrorCalls s, console := console s\<rparr> = s"
  "onErrorCalls (start_catch p error s) = onErrorCalls s @ (if onError p then [errorMessage error] else [])"
  by (simp_all add: start_catch_def Let_def)

lemma startRecording_failure:
  assumes "\<not> mediaDevicesAvailable env \<or> getUserMedia env = Inl e"
  shows "startRecording p env s =
         start_catch p (if mediaDevicesAvailable env then e else mediaDevices_unavailable)
           (s\<lparr>audioChunksRef := []\<rparr>)"
  using assms by (auto simp: startRecording_def Let_def)

text \<open>
  Claim C8.  When the microphone cannot be acquired in \<^verbatim>\<open>startRecording\<close> (the media
  devices interface is absent, or the request is rejected), the attempt ends in the
  \<^verbatim>\<open>catch\<close> block: the message for the cause is handed to \<^verbatim>\<open>onError\<close> when that
  callback is supplied, the recording flag keeps its value, nothing is emitted on the
  socket and no HTTP request is issued; the state changes in the cleared chunk list and
  the recorded outputs only.  Permission denied, no device, device busy, unsatisfiable
  constraints and the two forms of an insecure context have six different messages.
\<close>

theorem startRecording_microphone_failure:
  fixes s :: recorder and p :: props and env :: start_env and e :: thrown
  defines "s' \<equiv> startRecording p env s"
  defines "cause \<equiv> (if mediaDevicesAvailable env then e else mediaDevices_unavailable)"
  assumes fails: "\<not> mediaDevicesAvailable env \<or> getUserMedia env = Inl e"
  shows "onErrorCalls s' = onErrorCalls s @ (if onError p then [errorMessage cause] else [])
       \<and> isRecording s' = isRecording s
       \<and> socketOut s' = socketOut s
       \<and> httpOut s' = httpOut s
       \<and> s'\<lparr>onErrorCalls := onErrorCalls s, console := console s\<rparr> = s\<lparr>audioChunksRef := []\<rparr>
       \<and> errorMessage (DOMException ''NotAllowedError'' m1)
           = ''Microphone permission denied. Please allow microphone access.''
       \<and> errorMessage (DOMException ''NotFoundError'' m2)
           = ''No microphone found. Please connect a microphone.''
       \<and> errorMessage (DOMException ''NotReadableError'' m3)
           = ''Microphone is in use by another application.''
       \<and> errorMessage (DOMException ''OverconstrainedError'' m4)
           = ''Could not satisfy audio constraints.''
       \<and> errorMessage (DOMException ''SecurityError'' m5)
           = ''Microphone access blocked. Use HTTPS or localhost.''
       \<and> errorMessage mediaDevices_unavailable
           = ''Microphone access not available. Please use localhost (not 127.0.0.1) or HTTPS.''
       \<and> distinct [errorMessage (DOMException ''NotAllowedError'' m1),
                    errorMessage (DOMException ''NotFoundError'' m2),
                    errorMessage (DOMException ''NotReadableError'' m3),
                    errorMessage (DOMException ''OverconstrainedError'' m4),
                    errorMessage (DOMException ''SecurityError'' m5),
                    errorMessage mediaDevices_unavailable]"
proof -
  have eq: "s' = start_catch p cause (s\<lparr>audioChunksRef := []\<rparr>)"
    unfolding s'_def cause_def by (rule startRecording_failure [OF fails])
  have a: "onErrorCalls s' = onErrorCalls s @ (if onError p then [errorMessage cause] else [])"
    unfolding eq start_catch_frame(2) by simp
  have f: "s'\<lparr>onErrorCalls := onErrorCalls s, console := console s\<rparr> = s\<lparr>audioChunksRef := []\<rparr>"
    using start_catch_frame(1) [where p = p and error = cause and s = "s\<lparr>audioChunksRef := []\<rparr>"]
    unfolding eq by simp
  have b: "isRecording s' = isRecording s"
    using arg_cong [OF f, of isRecording] by simp
  have c: "socketOut s' = socketOut s"
    using arg_cong [OF f, of socketOut] by simp
  have d: "httpOut s' = httpOut s"
    using arg_cong [OF f, of httpOut] by simp
  have m: "errorMessage (DOMException ''NotAllowedError'' m1)
           = ''Microphone permission denied. Please allow microphone access.''"
    "errorMessage (DOMException ''NotFoundError'' m2)
           = ''No microphone found. Please connect a microphone.''"
    "errorMessage (DOMException ''NotReadableError'' m3)
           = ''Microphone is in use by another application.''"
    "errorMessage (DOMException ''OverconstrainedError'' m4)
           = ''Could not satisfy audio constraints.''"
    "errorMessage (DOMException ''SecurityError'' m5)
           = ''Microphone access blocked. Use HTTPS or localhost.''"
    "errorMessage mediaDevices_unavailable
           = ''Microphone access not available. Please use localhost (not 127.0.0.1) or HTTPS.''"
    by (simp_all add: errorMessage_def mediaDevices_unavailable_def)
  have di: "distinct [errorMessage (DOMException ''NotAllowedError'' m1),
                    errorMessage (DOMException ''NotFoundError'' m2),
                    errorMessage (DOMException ''NotReadableError'' m3),
                    errorMessage (DOMException ''OverconstrainedError'' m4),
                    errorMessage (DOMException ''SecurityError'' m5),
                    errorMessage mediaDevices_unavailable]"
    unfolding m by simp
  from a b c d f m di show ?thesis by blast
qed

theorem startRecording_microphone_failure_witness:
  "(let p = \<lparr>sourceLang = ''en'', targetLang = ''es'', onError = True\<rparr>;
        env = \<lparr>mediaDevicesAvailable = True,
               getUserMedia = Inl (DOMException ''NotAllowedError'' ''Permission denied''),
               contextSampleRate = 48000\<rparr>;
        s = initial_recorder\<lparr>isConnected := True, mode := batch\<rparr>;
        s' = startRecording p env s
    in onErrorCalls s' = [''Microphone permission denied. Please allow microphone access.'']
       \<and> \<not> isRecording s' \<and> socketOut s' = [] \<and> httpOut s' = [])"
proof -
  define p where "p = \<lparr>sourceLang = ''en'', targetLang = ''es'', onError = True\<rparr>"
  define env where "env = \<lparr>mediaDevicesAvailable = True,
               getUserMedia = Inl (DOMException ''NotAllowedError'' ''Permission denied''),
               contextSampleRate = 48000\<rparr>"
  define s where "s = initial_recorder\<lparr>isConnected := True, mode := batch\<rparr>"
  have h: "\<not> mediaDevicesAvailable env
      \<or> getUserMedia env = Inl (DOMException ''NotAllowedError'' ''Permission denied'')"
    by (simp add: env_def)
  have i: "mediaDevicesAvailable env" "onError p" "onErrorCalls s = []" "\<not> isRecording s"
    "socketOut s = []" "httpOut s = []"
    by (simp_all add: env_def p_def s_def initial_recorder_def)
  note r = startRecording_microphone_failure [OF h, where s = s and p = p]
  have "onErrorCalls (startRecording p env s)
          = [''Microphone permission denied. Please allow microphone access.'']
       \<and> \<not> isRecording (startRecording p env s) \<and> socketOut (startRecording p env s) = []
       \<and> httpOut (startRecording p env s) = []"
    using r i by simp
  then show ?thesis
    unfolding Let_def p_def env_def s_def .
qed



section \<open>Health probe and record button: proofs\<close>

lemma checkHealth_frame:
  "(checkHealth fetched s)\<lparr>isConnected := c, console := l\<rparr> = s\<lparr>isConnected := c, console := l\<rparr>"
  by (simp add: checkHealth_def split: sum.splits body.splits)

lemma checkHealth_flag:
  "isConnected (checkHealth fetched s) =
     (case fetched of
        Inl error \<Rightarrow> False
      | Inr r \<Rightarrow> 200 \<le> status r \<and> status r \<le> 299
                 \<and> (case body r of Parsed data \<Rightarrow> True | Unparsable m \<Rightarrow> False))"
  by (auto simp: checkHealth_def response_ok_def split: sum.splits body.splits)

text \<open>
  Claim C9, as amended.  A run of the health probe sets the flag \<open>isConnected\<close> to true
  exactly when the request settles with a response whose status is between 200 and 299
  and whose body parses as JSON; any other status, a body that does not parse, a network
  failure and the abort after the timeout set it to false.  The probe changes nothing
  else but the console.  While the flag is false a click on the record button changes
  nothing, so no recording starts.  The probe is scheduled every 5000 ms and aborted
  after 3000 ms.
\<close>

theorem checkHealth_reachability_gate:
  "isConnected (checkHealth fetched s) =
     (case fetched of
        Inl error \<Rightarrow> False
      | Inr r \<Rightarrow> 200 \<le> status r \<and> status r \<le> 299
                 \<and> (case body r of Parsed data \<Rightarrow> True | Unparsable m \<Rightarrow> False))
   \<and> (checkHealth fetched s)\<lparr>isConnected := isConnected s, console := console s\<rparr> = s
   \<and> (\<not> isConnected s \<longrightarrow> click_record_button p env s = s)
   \<and> (\<not> isConnected (checkHealth fetched s) \<longrightarrow>
         isRecording (click_record_button p env (checkHealth fetched s)) = isRecording s)
   \<and> HEALTH_INTERVAL_MS = 5000 \<and> HEALTH_TIMEOUT_MS = 3000"
proof -
  have f: "(checkHealth fetched s)\<lparr>isConnected := isConnected s, console := console s\<rparr> = s"
    using checkHealth_frame [where fetched = fetched and s = s and c = "isConnected s"
        and l = "console s"] by simp
  have g: "click_record_button p env t = t" if "\<not> isConnected t" for t
    using that by (simp add: click_record_button_def record_button_disabled_def)
  have r: "isRecording (checkHealth fetched s) = isRecording s"
    using arg_cong [OF f, of isRecording] by simp
  show ?thesis
    using f g r by (simp add: checkHealth_flag HEALTH_INTERVAL_MS_def HEALTH_TIMEOUT_MS_def)
qed

theorem checkHealth_reachability_gate_witness:
  "(let p = \<lparr>sourceLang = ''en'', targetLang = ''es'', onError = True\<rparr>;
        env = \<lparr>mediaDevicesAvailable = True, getUserMedia = Inr (), contextSampleRate = 48000\<rparr>;
        down = checkHealth (Inr \<lparr>status = 503, body = Parsed ()\<rparr>) initial_recorder;
        up = checkHealth (Inr \<lparr>status = 200, body = Parsed ()\<rparr>) down
    in \<not> isConnected down \<and> click_record_button p env down = down \<and> \<not> isRecording down
       \<and> isConnected up \<and> isRecording (click_record_button p env up))"
proof -
  define p where "p = \<lparr>sourceLang = ''en'', targetLang = ''es'', onError = True\<rparr>"
  define env where
    "env = \<lparr>mediaDevicesAvailable = True, getUserMedia = Inr (), contextSampleRate = 48000\<rparr>"
  define down where "down = checkHealth (Inr \<lparr>status = 503, body = Parsed ()\<rparr>) initial_recorder"
  define up where "up = checkHealth (Inr \<lparr>status = 200, body = Parsed ()\<rparr>) down"
  note a = checkHealth_reachability_gate
    [where fetched = "Inr \<lparr>status = 503, body = Parsed ()\<rparr>" and s = initial_recorder
       and p = p and env = env, folded down_def]
  note b = checkHealth_reachability_gate
    [where fetched = "Inr \<lparr>status = 200, body = Parsed ()\<rparr>" and s = down
       and p = p and env = env, folded up_def]
  have d: "\<not> isConnected down" using a by simp
  have d2: "click_record_button p env down = down" using b d by blast
  have d3: "\<not> isRecording down"
    using a d by (simp add: d2 initial_recorder_def)
  have u: "isConnected up" using b by simp
  have u1: "\<not> isProcessing up" "\<not> isRecording up"
    by (simp_all add: up_def down_def checkHealth_def response_ok_def initial_recorder_def)
  have u2: "isRecording (click_record_button p env up)"
    using u u1 by (simp add: click_record_button_def record_button_disabled_def
        toggleRecording_def startRecording_rest_def env_def Let_def)
  show ?thesis
    using d d2 d3 u u2 unfolding Let_def p_def env_def down_def up_def by blast
qed

text \<open>
  Claim C9 as stated fails in both directions: a response with status 201 and a JSON
  body sets the flag to true, and a response with status 200 whose body is not JSON sets
  it to false.
\<close>

theorem checkHealth_status_200_counterexample:
  "isConnected (checkHealth (Inr \<lparr>status = 201, body = Parsed ()\<rparr>) initial_recorder)
   \<and> \<not> isConnected (checkHealth (Inr \<lparr>status = 200, body = Unparsable ''Unexpected token O in JSON at position 0''\<rparr>)
          (initial_recorder\<lparr>isConnected := True\<rparr>))"
  by (simp add: checkHealth_def response_ok_def initial_recorder_def)



section \<open>Playback queue: proofs\<close>

lemmas display_eval =
  run_def render_def autoPlayEffect_def playNextInQueue.simps pause_current_def pause_def
  register_audio_def new_audio_def log_error_def initial_display_def Let_def
  fire_def mark_event_def after_event_def playAudio_def stopAudio_def data_url_def


lemma map_update_same: "k < length as \<Longrightarrow> f x = f (as ! k) \<Longrightarrow> map f (as[k := x]) = map f as"
  by (rule nth_equalityI) (auto simp: nth_list_update)

lemma length_pause [simp]: "length (pause k as) = length as"
  by (simp add: pause_def)

lemma map_src_pause [simp]: "map src (pause k as) = map src as"
  by (simp add: pause_def map_update_same)

lemma map_installed_pause [simp]: "map installed (pause k as) = map installed as"
  by (simp add: pause_def map_update_same)

lemma nth_pause:
  "j < length as \<Longrightarrow> playState (pause k as ! j) = (if j = k \<and> playState (as ! j) = Playing then Paused else playState (as ! j))"
  by (auto simp: pause_def nth_list_update)

lemma pause_current_fields [simp]:
  "results (pause_current s) = results s"
  "audioQueueRef (pause_current s) = audioQueueRef s"
  "isPlayingQueueRef (pause_current s) = isPlayingQueueRef s"
  "audioRef (pause_current s) = audioRef s"
  "playingIndex (pause_current s) = playingIndex s"
  "consoleErrors (pause_current s) = consoleErrors s"
  "length (audios (pause_current s)) = length (audios s)"
  "map src (audios (pause_current s)) = map src (audios s)"
  "map installed (audios (pause_current s)) = map installed (audios s)"
  by (simp_all add: pause_current_def split: option.splits)

lemma pause_current_stops:
  assumes "only_current_plays s" "j < length (audios s)"
  shows "playState (audios (pause_current s) ! j) \<noteq> Playing"
proof (cases "audioRef s")
  case None
  with assms show ?thesis by (auto simp: only_current_plays_def pause_current_def)
next
  case (Some k)
  with assms show ?thesis
    by (auto simp: only_current_plays_def pause_current_def nth_pause)
qed

lemma register_audio_fields [simp]:
  "results (register_audio b i h st s) = results s"
  "audioQueueRef (register_audio b i h st s) = audioQueueRef s"
  "isPlayingQueueRef (register_audio b i h st s) = isPlayingQueueRef s"
  "audioRef (register_audio b i h st s) = Some (length (audios s))"
  "playingIndex (register_audio b i h st s) = Some i"
  "consoleErrors (register_audio b i h st s) = consoleErrors s"
  "audios (register_audio b i h st s) = audios s @ [new_audio b h st]"
  by (simp_all add: register_audio_def)

lemma new_audio_fields [simp]:
  "src (new_audio b h st) = data_url b" "installed (new_audio b h st) = h"
  "playState (new_audio b h st) = st"
  by (simp_all add: new_audio_def)

lemma log_error_fields [simp]:
  "results (log_error m s) = results s"
  "audioQueueRef (log_error m s) = audioQueueRef s"
  "isPlayingQueueRef (log_error m s) = isPlayingQueueRef s"
  "audioRef (log_error m s) = audioRef s"
  "playingIndex (log_error m s) = playingIndex s"
  "consoleErrors (log_error m s) = consoleErrors s @ [m]"
  "audios (log_error m s) = audios s"
  by (simp_all add: log_error_def)

lemma mark_event_fields [simp]:
  "results (mark_event ev k s) = results s"
  "audioQueueRef (mark_event ev k s) = audioQueueRef s"
  "isPlayingQueueRef (mark_event ev k s) = isPlayingQueueRef s"
  "audioRef (mark_event ev k s) = audioRef s"
  "playingIndex (mark_event ev k s) = playingIndex s"
  "consoleErrors (mark_event ev k s) = consoleErrors s"
  "length (audios (mark_event ev k s)) = length (audios s)"
  "map src (audios (mark_event ev k s)) = map src (audios s)"
  "map installed (audios (mark_event ev k s)) = map installed (audios s)"
proof -
  have "map f (audios (mark_event ev k s)) = map f (audios s)"
    if "\<And>a st. f (a\<lparr>playState := st\<rparr>) = f a" for f :: "audio_element \<Rightarrow> 'b"
  proof (cases "k < length (audios s)")
    case True
    then show ?thesis by (simp add: mark_event_def map_update_same that)
  next
    case False
    then show ?thesis by (simp add: mark_event_def list_update_beyond)
  qed
  from this [of src] this [of installed]
  show "map src (audios (mark_event ev k s)) = map src (audios s)"
    "map installed (audios (mark_event ev k s)) = map installed (audios s)"
    by simp_all
qed (simp_all add: mark_event_def)

lemma mark_event_playing:
  assumes "j < length (audios s)" "playState (audios (mark_event ev k s) ! j) = Playing"
  shows "playState (audios s ! j) = Playing"
  using assms
  by (cases "j = k") (auto simp: mark_event_def after_event_def split: media_event.splits if_splits)

lemma playNext_Nil:
  "audioQueueRef s = [] \<Longrightarrow>
   playNextInQueue plat s = s\<lparr>isPlayingQueueRef := False, playingIndex := None\<rparr>"
  by (subst playNextInQueue.simps) simp

lemma playNext_Cons:
  "audioQueueRef s = (b, i) # rest \<Longrightarrow>
   playNextInQueue plat s =
     (case plat b of
        NewAudioThrows \<Rightarrow>
          playNextInQueue plat (log_error ''Error playing audio:''
            (pause_current (s\<lparr>isPlayingQueueRef := True, audioQueueRef := rest\<rparr>)))
      | PlayThrows \<Rightarrow>
          playNextInQueue plat (log_error ''Error playing audio:''
            (register_audio b i queue_handlers Paused
               (pause_current (s\<lparr>isPlayingQueueRef := True, audioQueueRef := rest\<rparr>))))
      | Starts \<Rightarrow>
          register_audio b i queue_handlers Playing
            (pause_current (s\<lparr>isPlayingQueueRef := True, audioQueueRef := rest\<rparr>)))"
  by (subst playNextInQueue.simps) (simp add: Let_def split: sync.splits)

lemma playNext_Starts:
  assumes "audioQueueRef s = (b, i) # rest" "plat b = Starts"
  shows "playNextInQueue plat s =
           register_audio b i queue_handlers Playing
             (pause_current (s\<lparr>isPlayingQueueRef := True, audioQueueRef := rest\<rparr>))"
  using assms by (simp add: playNext_Cons)

lemma playNext_induct [case_names Empty Starts NewThrows PlayThrows]:
  assumes empty: "\<And>s. audioQueueRef s = [] \<Longrightarrow>
      P s (s\<lparr>isPlayingQueueRef := False, playingIndex := None\<rparr>)"
    and starts: "\<And>s b i rest s2. audioQueueRef s = (b, i) # rest \<Longrightarrow> plat b = Starts \<Longrightarrow>
      s2 = pause_current (s\<lparr>isPlayingQueueRef := True, audioQueueRef := rest\<rparr>) \<Longrightarrow>
      P s (register_audio b i queue_handlers Playing s2)"
    and new_throws: "\<And>s b i rest s2 t. audioQueueRef s = (b, i) # rest \<Longrightarrow>
      plat b = NewAudioThrows \<Longrightarrow>
      s2 = pause_current (s\<lparr>isPlayingQueueRef := True, audioQueueRef := rest\<rparr>) \<Longrightarrow>
      t = log_error ''Error playing audio:'' s2 \<Longrightarrow>
      P t (playNextInQueue plat t) \<Longrightarrow> P s (playNextInQueue plat t)"
    and play_throws: "\<And>s b i rest s2 t. audioQueueRef s = (b, i) # rest \<Longrightarrow>
      plat b = PlayThrows \<Longrightarrow>
      s2 = pause_current (s\<lparr>isPlayingQueueRef := True, audioQueueRef := rest\<rparr>) \<Longrightarrow>
      t = log_error ''Error playing audio:'' (register_audio b i queue_handlers Paused s2) \<Longrightarrow>
      P t (playNextInQueue plat t) \<Longrightarrow> P s (playNextInQueue plat t)"
  shows "P s (playNextInQueue plat s)"
proof (induction "length (audioQueueRef s)" arbitrary: s rule: less_induct)
  case less
  show ?case
  proof (cases "audioQueueRef s")
    case Nil
    then show ?thesis using empty [OF Nil] by (simp add: playNext_Nil)
  next
    case (Cons entry rest)
    obtain b i where entry: "entry = (b, i)" by (cases entry)
    have q: "audioQueueRef s = (b, i) # rest" using Cons entry by simp
    define s2 where "s2 = pause_current (s\<lparr>isPlayingQueueRef := True, audioQueueRef := rest\<rparr>)"
    show ?thesis
    proof (cases "plat b")
      case Starts
      then show ?thesis
        using starts [OF q Starts s2_def] by (simp add: playNext_Cons [OF q] s2_def)
    next
      case NewAudioThrows
      define t where "t = log_error ''Error playing audio:'' s2"
      have "length (audioQueueRef t) < length (audioQueueRef s)"
        by (simp add: t_def s2_def q)
      then have "P t (playNextInQueue plat t)" by (rule less)
      from new_throws [OF q NewAudioThrows s2_def t_def this] show ?thesis
        by (simp add: playNext_Cons [OF q] NewAudioThrows t_def s2_def)
    next
      case PlayThrows
      define t where
        "t = log_error ''Error playing audio:'' (register_audio b i queue_handlers Paused s2)"
      have "length (audioQueueRef t) < length (audioQueueRef s)"
        by (simp add: t_def s2_def q)
      then have "P t (playNextInQueue plat t)" by (rule less)
      from play_throws [OF q PlayThrows s2_def t_def this] show ?thesis
        by (simp add: playNext_Cons [OF q] PlayThrows t_def s2_def)
    qed
  qed
qed


lemma playNext_results: "results (playNextInQueue plat s) = results s"
proof (rule playNext_induct [where P = "\<lambda>s s'. results s' = results s"])
qed simp_all

lemma playNext_idle_only_when_empty:
  "isPlayingQueueRef (playNextInQueue plat s) \<or> audioQueueRef (playNextInQueue plat s) = []"
proof (rule playNext_induct [where P = "\<lambda>s s'. isPlayingQueueRef s' \<or> audioQueueRef s' = []"])
qed simp_all

lemma playNext_log_grows:
  "\<exists>more. consoleErrors (playNextInQueue plat s) = consoleErrors s @ more"
proof (rule playNext_induct [where P = "\<lambda>s s'. \<exists>more. consoleErrors s' = consoleErrors s @ more"])
  fix s :: display
  show "\<exists>more. consoleErrors (s\<lparr>isPlayingQueueRef := False, playingIndex := None\<rparr>) = consoleErrors s @ more"
    by simp
next
  fix s :: display and b i rest s2
  assume "s2 = pause_current (s\<lparr>isPlayingQueueRef := True, audioQueueRef := rest\<rparr>)"
  then show "\<exists>more. consoleErrors (register_audio b i queue_handlers Playing s2) = consoleErrors s @ more"
    by simp
next
  fix s :: display and b i rest s2 t
  assume a: "s2 = pause_current (s\<lparr>isPlayingQueueRef := True, audioQueueRef := rest\<rparr>)"
    "t = log_error ''Error playing audio:'' s2"
    and ih: "\<exists>more. consoleErrors (playNextInQueue plat t) = consoleErrors t @ more"
  from ih obtain more where "consoleErrors (playNextInQueue plat t) = consoleErrors t @ more" by blast
  moreover have "consoleErrors t = consoleErrors s @ [''Error playing audio:'']"
    using a by simp
  ultimately show "\<exists>more. consoleErrors (playNextInQueue plat t) = consoleErrors s @ more"
    by simp
next
  fix s :: display and b i rest s2 t
  assume a: "s2 = pause_current (s\<lparr>isPlayingQueueRef := True, audioQueueRef := rest\<rparr>)"
    "t = log_error ''Error playing audio:'' (register_audio b i queue_handlers Paused s2)"
    and ih: "\<exists>more. consoleErrors (playNextInQueue plat t) = consoleErrors t @ more"
  from ih obtain more where "consoleErrors (playNextInQueue plat t) = consoleErrors t @ more" by blast
  moreover have "consoleErrors t = consoleErrors s @ [''Error playing audio:'']"
    using a by simp
  ultimately show "\<exists>more. consoleErrors (playNextInQueue plat t) = consoleErrors s @ more"
    by simp
qed

lemma only_currentD:
  assumes "only_current_plays s"
  shows "k < length (audios s) \<Longrightarrow> playState (audios s ! k) = Playing \<Longrightarrow> audioRef s = Some k"
    and "audioRef s = Some k \<Longrightarrow> k < length (audios s)"
  using assms unfolding only_current_plays_def by blast+

lemma only_current_cong:
  "audios t = audios s \<Longrightarrow> audioRef t = audioRef s \<Longrightarrow> only_current_plays t = only_current_plays s"
  by (simp add: only_current_plays_def)

lemma quiet_after_pause:
  assumes "only_current_plays s"
  shows "\<forall>j < length (audios (pause_current (s\<lparr>isPlayingQueueRef := x, audioQueueRef := y\<rparr>))).
           playState (audios (pause_current (s\<lparr>isPlayingQueueRef := x, audioQueueRef := y\<rparr>)) ! j) \<noteq> Playing"
proof (intro allI impI)
  fix j
  assume "j < length (audios (pause_current (s\<lparr>isPlayingQueueRef := x, audioQueueRef := y\<rparr>)))"
  then have j: "j < length (audios (s\<lparr>isPlayingQueueRef := x, audioQueueRef := y\<rparr>))"
    by simp
  have "only_current_plays (s\<lparr>isPlayingQueueRef := x, audioQueueRef := y\<rparr>)"
    using assms only_current_cong [of "s\<lparr>isPlayingQueueRef := x, audioQueueRef := y\<rparr>" s] by simp
  from pause_current_stops [OF this j]
  show "playState (audios (pause_current (s\<lparr>isPlayingQueueRef := x, audioQueueRef := y\<rparr>)) ! j) \<noteq> Playing" .
qed

lemma only_current_register:
  assumes "\<forall>j < length (audios s). playState (audios s ! j) \<noteq> Playing"
  shows "only_current_plays (register_audio b i h st s)"
  unfolding only_current_plays_def
proof (intro conjI allI impI)
  fix k
  assume k: "k < length (audios (register_audio b i h st s))"
    and p: "playState (audios (register_audio b i h st s) ! k) = Playing"
  have "\<not> k < length (audios s)"
  proof
    assume "k < length (audios s)"
    with p assms show False by (simp add: nth_append)
  qed
  with k show "audioRef (register_audio b i h st s) = Some k" by simp
next
  fix k
  assume "audioRef (register_audio b i h st s) = Some k"
  then show "k < length (audios (register_audio b i h st s))" by simp
qed

lemma only_current_log: "only_current_plays (log_error m s) = only_current_plays s"
  by (simp add: only_current_plays_def)

lemma quiet_to_only_current:
  assumes "\<forall>j < length (audios s). playState (audios s ! j) \<noteq> Playing"
    and "\<forall>k. audioRef s = Some k \<longrightarrow> k < length (audios s)"
  shows "only_current_plays s"
  using assms unfolding only_current_plays_def by blast

lemma only_current_pause:
  assumes "only_current_plays s"
  shows "only_current_plays (pause_current (s\<lparr>isPlayingQueueRef := x, audioQueueRef := y\<rparr>))"
proof (rule quiet_to_only_current)
  show "\<forall>j < length (audios (pause_current (s\<lparr>isPlayingQueueRef := x, audioQueueRef := y\<rparr>))).
           playState (audios (pause_current (s\<lparr>isPlayingQueueRef := x, audioQueueRef := y\<rparr>)) ! j) \<noteq> Playing"
    by (rule quiet_after_pause [OF assms])
  show "\<forall>k. audioRef (pause_current (s\<lparr>isPlayingQueueRef := x, audioQueueRef := y\<rparr>)) = Some k \<longrightarrow>
      k < length (audios (pause_current (s\<lparr>isPlayingQueueRef := x, audioQueueRef := y\<rparr>)))"
  proof (intro allI impI)
    fix k
    assume "audioRef (pause_current (s\<lparr>isPlayingQueueRef := x, audioQueueRef := y\<rparr>)) = Some k"
    then have "audioRef s = Some k" by simp
    from only_currentD(2) [OF assms this]
    show "k < length (audios (pause_current (s\<lparr>isPlayingQueueRef := x, audioQueueRef := y\<rparr>)))"
      by simp
  qed
qed

lemma playNext_only_current_imp:
  "only_current_plays s \<longrightarrow> only_current_plays (playNextInQueue plat s)"
proof (rule playNext_induct [where P = "\<lambda>s s'. only_current_plays s \<longrightarrow> only_current_plays s'"])
  fix s :: display assume "audioQueueRef s = []"
  show "only_current_plays s \<longrightarrow> only_current_plays (s\<lparr>isPlayingQueueRef := False, playingIndex := None\<rparr>)"
    using only_current_cong [of "s\<lparr>isPlayingQueueRef := False, playingIndex := None\<rparr>" s] by simp
next
  fix s :: display and b i rest s2
  assume s2: "s2 = pause_current (s\<lparr>isPlayingQueueRef := True, audioQueueRef := rest\<rparr>)"
  show "only_current_plays s \<longrightarrow> only_current_plays (register_audio b i queue_handlers Playing s2)"
  proof
    assume "only_current_plays s"
    from quiet_after_pause [OF this, where x = True and y = rest]
    show "only_current_plays (register_audio b i queue_handlers Playing s2)"
      unfolding s2 by (rule only_current_register)
  qed
next
  fix s :: display and b i rest s2 t
  assume s2: "s2 = pause_current (s\<lparr>isPlayingQueueRef := True, audioQueueRef := rest\<rparr>)"
    and t: "t = log_error ''Error playing audio:'' s2"
    and ih: "only_current_plays t \<longrightarrow> only_current_plays (playNextInQueue plat t)"
  show "only_current_plays s \<longrightarrow> only_current_plays (playNextInQueue plat t)"
  proof
    assume "only_current_plays s"
    from only_current_pause [OF this, where x = True and y = rest]
    have "only_current_plays t" unfolding t s2 only_current_log .
    with ih show "only_current_plays (playNextInQueue plat t)" by blast
  qed
next
  fix s :: display and b i rest s2 t
  assume s2: "s2 = pause_current (s\<lparr>isPlayingQueueRef := True, audioQueueRef := rest\<rparr>)"
    and t: "t = log_error ''Error playing audio:'' (register_audio b i queue_handlers Paused s2)"
    and ih: "only_current_plays t \<longrightarrow> only_current_plays (playNextInQueue plat t)"
  show "only_current_plays s \<longrightarrow> only_current_plays (playNextInQueue plat t)"
  proof
    assume "only_current_plays s"
    from quiet_after_pause [OF this, where x = True and y = rest]
    have "only_current_plays (register_audio b i queue_handlers Paused s2)"
      unfolding s2 by (rule only_current_register)
    then have "only_current_plays t" unfolding t only_current_log .
    with ih show "only_current_plays (playNextInQueue plat t)" by blast
  qed
qed

lemma playNext_only_current:
  "only_current_plays s \<Longrightarrow> only_current_plays (playNextInQueue plat s)"
  using playNext_only_current_imp by blast


lemma length_queue_entries [simp]: "length (queue_entries rs) = length rs"
  by (simp add: queue_entries_def)

lemma nth_queue_entries: "n < length rs \<Longrightarrow> queue_entries rs ! n = (audio_base64 (rs ! n), n)"
  by (simp add: queue_entries_def)

lemma queue_entries_snoc:
  "queue_entries (rs @ [r]) = queue_entries rs @ [(audio_base64 r, length rs)]"
  by (simp add: queue_entries_def)

lemma drop_eq_ConsD:
  assumes "drop n xs = y # ys"
  shows "n < length xs" "y = xs ! n" "ys = drop (Suc n) xs"
proof -
  show n: "n < length xs"
    using assms by (cases "n < length xs") simp_all
  from Cons_nth_drop_Suc [OF n] assms show "y = xs ! n" "ys = drop (Suc n) xs"
    by simp_all
qed

lemma started_cong:
  assumes "results t = results s" "map src (audios t) = map src (audios s)"
    "audioQueueRef t = audioQueueRef s"
  shows "started_in_order t = started_in_order s"
proof -
  have "length (audios t) = length (audios s)"
    using assms(2) by (metis length_map)
  with assms show ?thesis by (simp add: started_in_order_def)
qed

lemma started_register:
  assumes st: "started_in_order s" and q: "audioQueueRef s = (b, i) # rest"
    and s2: "results s2 = results s" "map src (audios s2) = map src (audios s)"
      "audioQueueRef s2 = rest"
  shows "started_in_order (register_audio b i h ps s2)"
proof -
  let ?n = "length (audios s)"
  have len: "length (audios s2) = ?n" using s2(2) by (metis length_map)
  from st have a: "?n \<le> length (results s)"
    and m: "map src (audios s) = map (\<lambda>r. data_url (audio_base64 r)) (take ?n (results s))"
    and d: "drop ?n (queue_entries (results s)) = (b, i) # rest"
    unfolding started_in_order_def q by simp_all
  from drop_eq_ConsD [OF d] have n: "?n < length (results s)"
    and e: "(b, i) = queue_entries (results s) ! ?n"
    and r: "rest = drop (Suc ?n) (queue_entries (results s))"
    by simp_all
  from e n have b: "b = audio_base64 (results s ! ?n)" by (simp add: nth_queue_entries)
  have "map src (audios s2 @ [new_audio b h ps])
      = map (\<lambda>r. data_url (audio_base64 r)) (take (Suc ?n) (results s))"
    using n by (simp add: s2(2) m take_Suc_conv_app_nth b)
  then show ?thesis
    using n r by (simp add: started_in_order_def len s2)
qed

lemma started_log: "started_in_order (log_error m s) = started_in_order s"
  by (rule started_cong) simp_all

lemma playNext_started_imp:
  assumes plat: "\<forall>b. plat b \<noteq> NewAudioThrows"
  shows "started_in_order s \<longrightarrow> started_in_order (playNextInQueue plat s)"
proof (rule playNext_induct [where P = "\<lambda>s s'. started_in_order s \<longrightarrow> started_in_order s'"])
  fix s :: display assume "audioQueueRef s = []"
  show "started_in_order s \<longrightarrow> started_in_order (s\<lparr>isPlayingQueueRef := False, playingIndex := None\<rparr>)"
    using started_cong [of "s\<lparr>isPlayingQueueRef := False, playingIndex := None\<rparr>" s] by simp
next
  fix s :: display and b i rest s2
  assume q: "audioQueueRef s = (b, i) # rest"
    and s2: "s2 = pause_current (s\<lparr>isPlayingQueueRef := True, audioQueueRef := rest\<rparr>)"
  show "started_in_order s \<longrightarrow> started_in_order (register_audio b i queue_handlers Playing s2)"
  proof
    assume "started_in_order s"
    then show "started_in_order (register_audio b i queue_handlers Playing s2)"
      using q by (rule started_register) (simp_all add: s2)
  qed
next
  fix s :: display and b i rest s2 t
  assume "plat b = NewAudioThrows"
  with plat show "started_in_order s \<longrightarrow> started_in_order (playNextInQueue plat t)" by blast
next
  fix s :: display and b i rest s2 t
  assume q: "audioQueueRef s = (b, i) # rest"
    and s2: "s2 = pause_current (s\<lparr>isPlayingQueueRef := True, audioQueueRef := rest\<rparr>)"
    and t: "t = log_error ''Error playing audio:'' (register_audio b i queue_handlers Paused s2)"
    and ih: "started_in_order t \<longrightarrow> started_in_order (playNextInQueue plat t)"
  show "started_in_order s \<longrightarrow> started_in_order (playNextInQueue plat t)"
  proof
    assume "started_in_order s"
    then have "started_in_order (register_audio b i queue_handlers Paused s2)"
      using q by (rule started_register) (simp_all add: s2)
    then have "started_in_order t" unfolding t started_log .
    with ih show "started_in_order (playNextInQueue plat t)" by blast
  qed
qed

lemma playNext_all_queue_imp:
  "set (map installed (audios s)) \<subseteq> {queue_handlers} \<longrightarrow>
   set (map installed (audios (playNextInQueue plat s))) \<subseteq> {queue_handlers}"
proof (rule playNext_induct [where P = "\<lambda>s s'. set (map installed (audios s)) \<subseteq> {queue_handlers} \<longrightarrow>
   set (map installed (audios s')) \<subseteq> {queue_handlers}"])
  fix s :: display and b i rest s2 t
  assume s2: "s2 = pause_current (s\<lparr>isPlayingQueueRef := True, audioQueueRef := rest\<rparr>)"
    and t: "t = log_error ''Error playing audio:'' s2"
    and ih: "set (map installed (audios t)) \<subseteq> {queue_handlers} \<longrightarrow>
       set (map installed (audios (playNextInQueue plat t))) \<subseteq> {queue_handlers}"
  have "map installed (audios t) = map installed (audios s)" by (simp add: t s2)
  with ih show "set (map installed (audios s)) \<subseteq> {queue_handlers} \<longrightarrow>
       set (map installed (audios (playNextInQueue plat t))) \<subseteq> {queue_handlers}"
    by simp
next
  fix s :: display and b i rest s2 t
  assume s2: "s2 = pause_current (s\<lparr>isPlayingQueueRef := True, audioQueueRef := rest\<rparr>)"
    and t: "t = log_error ''Error playing audio:'' (register_audio b i queue_handlers Paused s2)"
    and ih: "set (map installed (audios t)) \<subseteq> {queue_handlers} \<longrightarrow>
       set (map installed (audios (playNextInQueue plat t))) \<subseteq> {queue_handlers}"
  have "map installed (audios t) = map installed (audios s) @ [queue_handlers]" by (simp add: t s2)
  with ih show "set (map installed (audios s)) \<subseteq> {queue_handlers} \<longrightarrow>
       set (map installed (audios (playNextInQueue plat t))) \<subseteq> {queue_handlers}"
    by simp
qed simp_all


lemma playNext_current_when_busy:
  "isPlayingQueueRef (playNextInQueue plat s) \<longrightarrow> audioRef (playNextInQueue plat s) \<noteq> None"
proof (rule playNext_induct [where P = "\<lambda>s s'. isPlayingQueueRef s' \<longrightarrow> audioRef s' \<noteq> None"])
qed simp_all

lemma step_Submit:
  "step plat (Submit r) s =
     (if isPlayingQueueRef s
      then s\<lparr>results := results s @ [r],
             audioQueueRef := audioQueueRef s @ [(audio_base64 r, length (results s))]\<rparr>
      else playNextInQueue plat
             (s\<lparr>results := results s @ [r],
                audioQueueRef := audioQueueRef s @ [(audio_base64 r, length (results s))]\<rparr>))"
  by (simp add: render_def autoPlayEffect_def Let_def)

lemma started_enqueue:
  assumes "started_in_order s"
  shows "started_in_order (s\<lparr>results := results s @ [r],
             audioQueueRef := audioQueueRef s @ [(audio_base64 r, length (results s))]\<rparr>)"
  using assms by (simp add: started_in_order_def queue_entries_snoc)

lemma only_current_mark:
  assumes "only_current_plays s"
  shows "only_current_plays (mark_event ev k s)"
  unfolding only_current_plays_def
proof (intro conjI allI impI)
  fix j
  assume j: "j < length (audios (mark_event ev k s))"
    and p: "playState (audios (mark_event ev k s) ! j) = Playing"
  from j have j': "j < length (audios s)" by simp
  from mark_event_playing [OF j' p] have "playState (audios s ! j) = Playing" .
  from only_currentD(1) [OF assms j' this] show "audioRef (mark_event ev k s) = Some j" by simp
next
  fix j
  assume "audioRef (mark_event ev k s) = Some j"
  then have "audioRef s = Some j" by simp
  from only_currentD(2) [OF assms this] show "j < length (audios (mark_event ev k s))" by simp
qed

lemma fire_queue:
  assumes "k < length (audios s)" "installed (audios s ! k) = queue_handlers"
  shows "fire plat ev k s =
     playNextInQueue plat
       (case ev of media_ended \<Rightarrow> mark_event ev k s
        | media_error \<Rightarrow> log_error ''Error playing audio'' (mark_event ev k s)
        | play_rejected \<Rightarrow> log_error ''Error starting playback:'' (mark_event ev k s))"
  using assms by (simp add: fire_def Let_def split: media_event.splits)

lemma fire_out_of_range: "\<not> k < length (audios s) \<Longrightarrow> fire plat ev k s = s"
  by (simp add: fire_def)

text \<open>The properties kept by every event of the queue.\<close>

lemma queue_event_invariant:
  assumes plat: "\<forall>b. plat b \<noteq> NewAudioThrows" and e: "is_queue_event e"
    and oc: "only_current_plays s" and so: "started_in_order s"
    and aq: "set (map installed (audios s)) \<subseteq> {queue_handlers}"
    and idle: "isPlayingQueueRef s \<or> audioQueueRef s = []"
    and busy: "isPlayingQueueRef s \<longrightarrow> audioRef s \<noteq> None"
  shows "only_current_plays (step plat e s)" "started_in_order (step plat e s)"
    "set (map installed (audios (step plat e s))) \<subseteq> {queue_handlers}"
    "isPlayingQueueRef (step plat e s) \<or> audioQueueRef (step plat e s) = []"
    "isPlayingQueueRef (step plat e s) \<longrightarrow> audioRef (step plat e s) \<noteq> None"
proof -
  have pn: "only_current_plays (playNextInQueue plat t) \<and> started_in_order (playNextInQueue plat t)
      \<and> set (map installed (audios (playNextInQueue plat t))) \<subseteq> {queue_handlers}
      \<and> (isPlayingQueueRef (playNextInQueue plat t) \<or> audioQueueRef (playNextInQueue plat t) = [])
      \<and> (isPlayingQueueRef (playNextInQueue plat t) \<longrightarrow> audioRef (playNextInQueue plat t) \<noteq> None)"
    if "only_current_plays t" "started_in_order t" "set (map installed (audios t)) \<subseteq> {queue_handlers}"
    for t
    using that playNext_only_current [of t plat] playNext_started_imp [OF plat, of t]
      playNext_all_queue_imp [of t plat] playNext_idle_only_when_empty [of plat t]
      playNext_current_when_busy [of plat t]
    by blast
  have all: "only_current_plays (step plat e s) \<and> started_in_order (step plat e s)
      \<and> set (map installed (audios (step plat e s))) \<subseteq> {queue_handlers}
      \<and> (isPlayingQueueRef (step plat e s) \<or> audioQueueRef (step plat e s) = [])
      \<and> (isPlayingQueueRef (step plat e s) \<longrightarrow> audioRef (step plat e s) \<noteq> None)"
  proof (cases e)
    case (Submit r)
    define s1 where "s1 = s\<lparr>results := results s @ [r],
             audioQueueRef := audioQueueRef s @ [(audio_base64 r, length (results s))]\<rparr>"
    have o1: "only_current_plays s1"
      using oc only_current_cong [of s1 s] by (simp add: s1_def)
    have t1: "started_in_order s1"
      unfolding s1_def by (rule started_enqueue [OF so])
    have a1: "set (map installed (audios s1)) \<subseteq> {queue_handlers}"
      using aq by (simp add: s1_def)
    show ?thesis
    proof (cases "isPlayingQueueRef s")
      case True
      then have "step plat e s = s1" by (simp add: Submit step_Submit s1_def del: step.simps)
      moreover have "isPlayingQueueRef s1" "audioRef s1 \<noteq> None"
        using True busy by (simp_all add: s1_def)
      ultimately show ?thesis using o1 t1 a1 by simp
    next
      case False
      then have "step plat e s = playNextInQueue plat s1" by (simp add: Submit step_Submit s1_def del: step.simps)
      then show ?thesis using pn [OF o1 t1 a1] by simp
    qed
  next
    case (Media ev k)
    show ?thesis
    proof (cases "k < length (audios s)")
      case False
      then have "step plat e s = s" by (simp add: Media fire_out_of_range)
      then show ?thesis using oc so aq idle busy by simp
    next
      case True
      then have "installed (audios s ! k) \<in> set (map installed (audios s))" by simp
      with aq have q: "installed (audios s ! k) = queue_handlers" by blast
      define m where "m = mark_event ev k s"
      have om: "only_current_plays m" unfolding m_def by (rule only_current_mark [OF oc])
      have sm: "started_in_order m"
        using so started_cong [of m s] by (simp add: m_def)
      have am: "set (map installed (audios m)) \<subseteq> {queue_handlers}"
        using aq by (simp add: m_def)
      have ol: "only_current_plays (log_error msg m)" for msg
        using om by (simp add: only_current_log)
      have sl: "started_in_order (log_error msg m)" for msg
        using sm by (simp add: started_log)
      have al: "set (map installed (audios (log_error msg m))) \<subseteq> {queue_handlers}" for msg
        using am by simp
      show ?thesis
      proof (cases ev)
        case media_ended
        then have "step plat e s = playNextInQueue plat m"
          by (simp add: Media fire_queue [OF True q] m_def)
        then show ?thesis using pn [OF om sm am] by simp
      next
        case media_error
        then have "step plat e s = playNextInQueue plat (log_error ''Error playing audio'' m)"
          by (simp add: Media fire_queue [OF True q] m_def)
        then show ?thesis using pn [OF ol sl al] by simp
      next
        case play_rejected
        then have "step plat e s = playNextInQueue plat (log_error ''Error starting playback:'' m)"
          by (simp add: Media fire_queue [OF True q] m_def)
        then show ?thesis using pn [OF ol sl al] by simp
      qed
    qed
  next
    case (Render rs)
    with e show ?thesis by simp
  next
    case (ClickPlay i)
    with e show ?thesis by simp
  next
    case ClickStop
    with e show ?thesis by simp
  qed
  from all show "only_current_plays (step plat e s)" "started_in_order (step plat e s)"
    "set (map installed (audios (step plat e s))) \<subseteq> {queue_handlers}"
    "isPlayingQueueRef (step plat e s) \<or> audioQueueRef (step plat e s) = []"
    "isPlayingQueueRef (step plat e s) \<longrightarrow> audioRef (step plat e s) \<noteq> None"
    by blast+
qed


lemma run_Nil: "run plat [] s = s" and run_Cons: "run plat (e # evs) s = run plat evs (step plat e s)"
  by (simp_all add: run_def)

lemma fire_results: "results (fire plat ev k s) = results s"
  by (simp add: fire_def Let_def playNext_results split: handlers.splits media_event.splits)

lemma playAudio_results: "results (playAudio plat b i s) = results s"
  by (simp add: playAudio_def Let_def split: sync.splits)

lemma stopAudio_results: "results (stopAudio s) = results s"
  by (simp add: stopAudio_def split: option.splits)

lemma step_results:
  "is_queue_event e \<Longrightarrow> results (step plat e s) = results s @ submitted [e]"
proof (cases e)
  case (Submit r)
  then show ?thesis by (simp add: step_Submit playNext_results del: step.simps)
qed (simp_all add: fire_results)

lemma submitted_Cons: "submitted (e # evs) = submitted [e] @ submitted evs"
  by (cases e) simp_all

lemma run_results:
  "\<forall>e \<in> set evs. is_queue_event e \<Longrightarrow> results (run plat evs s) = results s @ submitted evs"
proof (induction evs arbitrary: s)
  case Nil
  show ?case by (simp add: run_Nil)
next
  case (Cons e evs)
  from Cons.prems have e: "is_queue_event e" and rest: "\<forall>e \<in> set evs. is_queue_event e"
    by simp_all
  have "results (run plat (e # evs) s) = results (step plat e s) @ submitted evs"
    unfolding run_Cons by (rule Cons.IH [OF rest])
  also have "\<dots> = results s @ submitted (e # evs)"
    unfolding step_results [OF e] by (simp add: submitted_Cons [of e evs])
  finally show ?case .
qed

lemma run_queue_invariant:
  assumes plat: "\<forall>b. plat b \<noteq> NewAudioThrows" and evs: "\<forall>e \<in> set evs. is_queue_event e"
    and oc: "only_current_plays s" and so: "started_in_order s"
    and aq: "set (map installed (audios s)) \<subseteq> {queue_handlers}"
    and idle: "isPlayingQueueRef s \<or> audioQueueRef s = []"
    and busy: "isPlayingQueueRef s \<longrightarrow> audioRef s \<noteq> None"
  shows "only_current_plays (run plat evs s) \<and> started_in_order (run plat evs s)
    \<and> set (map installed (audios (run plat evs s))) \<subseteq> {queue_handlers}
    \<and> (isPlayingQueueRef (run plat evs s) \<or> audioQueueRef (run plat evs s) = [])
    \<and> (isPlayingQueueRef (run plat evs s) \<longrightarrow> audioRef (run plat evs s) \<noteq> None)"
  using evs oc so aq idle busy
proof (induction evs arbitrary: s)
  case Nil
  then show ?case by (simp add: run_Nil)
next
  case (Cons e evs)
  from Cons.prems(1) have e: "is_queue_event e" and rest: "\<forall>e \<in> set evs. is_queue_event e"
    by simp_all
  note st = queue_event_invariant [OF plat e Cons.prems(2) Cons.prems(3) Cons.prems(4)
      Cons.prems(5) Cons.prems(6)]
  show ?case
    unfolding run_Cons by (rule Cons.IH [OF rest st])
qed

lemma initial_display_invariant:
  "only_current_plays initial_display" "started_in_order initial_display"
  "set (map installed (audios initial_display)) \<subseteq> {queue_handlers}"
  "isPlayingQueueRef initial_display \<or> audioQueueRef initial_display = []"
  "isPlayingQueueRef initial_display \<longrightarrow> audioRef initial_display \<noteq> None"
  "results initial_display = []"
  by (simp_all add: initial_display_def only_current_plays_def started_in_order_def
      queue_entries_def)

lemma only_current_at_most_one: "only_current_plays s \<Longrightarrow> at_most_one_playing s"
  unfolding at_most_one_playing_def
proof (intro allI impI)
  fix i j
  assume oc: "only_current_plays s" and i: "i < length (audios s)" and j: "j < length (audios s)"
    and p: "playState (audios s ! i) = Playing \<and> playState (audios s ! j) = Playing"
  from only_currentD(1) [OF oc i] p have "audioRef s = Some i" by blast
  moreover from only_currentD(1) [OF oc j] p have "audioRef s = Some j" by blast
  ultimately show "i = j" by simp
qed

lemma pause_current_quiet:
  assumes "\<forall>j < length (audios s). playState (audios s ! j) \<noteq> Playing"
  shows "audios (pause_current s) = audios s"
  using assms by (auto simp: pause_current_def pause_def split: option.splits)

lemma playNext_quiet:
  assumes plat: "\<forall>b. plat b = Starts"
    and np: "\<forall>j < length (audios t). playState (audios t ! j) \<noteq> Playing"
    and nz: "\<forall>j < length (audios t). playState (audios t ! j) \<noteq> Paused"
  shows "(\<forall>j < length (audios (playNextInQueue plat t)).
            playState (audios (playNextInQueue plat t) ! j) \<noteq> Paused)
       \<and> (\<not> isPlayingQueueRef (playNextInQueue plat t) \<longrightarrow>
            (\<forall>j < length (audios (playNextInQueue plat t)).
               playState (audios (playNextInQueue plat t) ! j) \<noteq> Playing))"
proof (cases "audioQueueRef t")
  case Nil
  with np nz show ?thesis by (simp add: playNext_Nil)
next
  case (Cons entry rest)
  obtain b i where "entry = (b, i)" by (cases entry)
  with Cons have q: "audioQueueRef t = (b, i) # rest" by simp
  let ?t = "t\<lparr>isPlayingQueueRef := True, audioQueueRef := rest\<rparr>"
  have "\<forall>j < length (audios ?t). playState (audios ?t ! j) \<noteq> Playing" using np by simp
  from pause_current_quiet [OF this] have a: "audios (pause_current ?t) = audios t" by simp
  have e: "playNextInQueue plat t = register_audio b i queue_handlers Playing (pause_current ?t)"
    using plat by (intro playNext_Starts [OF q]) simp
  show ?thesis
    unfolding e using nz by (simp add: a nth_append less_Suc_eq)
qed

lemma timely_queue_event_invariant:
  assumes plat: "\<forall>b. plat b = Starts" and e: "is_queue_event e"
    and tm: "timely plat (e # evs) s"
    and oc: "only_current_plays s"
    and aq: "set (map installed (audios s)) \<subseteq> {queue_handlers}"
    and nz: "\<forall>j < length (audios s). playState (audios s ! j) \<noteq> Paused"
    and idle: "\<not> isPlayingQueueRef s \<longrightarrow> (\<forall>j < length (audios s). playState (audios s ! j) \<noteq> Playing)"
  shows "(\<forall>j < length (audios (step plat e s)). playState (audios (step plat e s) ! j) \<noteq> Paused)
       \<and> (\<not> isPlayingQueueRef (step plat e s) \<longrightarrow>
            (\<forall>j < length (audios (step plat e s)). playState (audios (step plat e s) ! j) \<noteq> Playing))"
proof (cases e)
  case (Submit r)
  define s1 where "s1 = s\<lparr>results := results s @ [r],
             audioQueueRef := audioQueueRef s @ [(audio_base64 r, length (results s))]\<rparr>"
  show ?thesis
  proof (cases "isPlayingQueueRef s")
    case True
    then have "step plat e s = s1" by (simp add: Submit step_Submit s1_def del: step.simps)
    moreover have "isPlayingQueueRef s1" "audios s1 = audios s" using True by (simp_all add: s1_def)
    ultimately show ?thesis using nz by simp
  next
    case False
    then have st: "step plat e s = playNextInQueue plat s1"
      by (simp add: Submit step_Submit s1_def del: step.simps)
    have "\<forall>j < length (audios s1). playState (audios s1 ! j) \<noteq> Playing"
      "\<forall>j < length (audios s1). playState (audios s1 ! j) \<noteq> Paused"
      using False idle nz by (simp_all add: s1_def)
    from playNext_quiet [OF plat this] show ?thesis unfolding st .
  qed
next
  case (Media ev k)
  from tm have cur: "audioRef s = Some k" and k: "k < length (audios s)"
    and pk: "playState (audios s ! k) = Playing"
    by (simp_all add: Media)
  from k have "installed (audios s ! k) \<in> set (map installed (audios s))" by simp
  with aq have q: "installed (audios s ! k) = queue_handlers" by blast
  define m where "m = mark_event ev k s"
  have mk: "playState (audios m ! k) \<noteq> Playing" "playState (audios m ! k) \<noteq> Paused"
    using k pk by (simp_all add: m_def mark_event_def after_event_def split: media_event.splits)
  have mo: "audios m ! j = audios s ! j" if "j \<noteq> k" for j
    using that by (simp add: m_def mark_event_def)
  have ml: "length (audios m) = length (audios s)" by (simp add: m_def)
  have np: "\<forall>j < length (audios m). playState (audios m ! j) \<noteq> Playing"
  proof (intro allI impI)
    fix j assume j: "j < length (audios m)"
    show "playState (audios m ! j) \<noteq> Playing"
    proof (cases "j = k")
      case True
      with mk show ?thesis by simp
    next
      case False
      have "playState (audios s ! j) \<noteq> Playing"
      proof
        assume "playState (audios s ! j) = Playing"
        from only_currentD(1) [OF oc _ this] j ml cur False show False by simp
      qed
      with mo [OF False] show ?thesis by simp
    qed
  qed
  have nzm: "\<forall>j < length (audios m). playState (audios m ! j) \<noteq> Paused"
  proof (intro allI impI)
    fix j assume j: "j < length (audios m)"
    show "playState (audios m ! j) \<noteq> Paused"
    proof (cases "j = k")
      case True
      with mk show ?thesis by simp
    next
      case False
      with mo [OF False] nz j ml show ?thesis by simp
    qed
  qed
  have npl: "\<forall>j < length (audios (log_error msg m)). playState (audios (log_error msg m) ! j) \<noteq> Playing"
    and nzl: "\<forall>j < length (audios (log_error msg m)). playState (audios (log_error msg m) ! j) \<noteq> Paused"
    for msg
    using np nzm by simp_all
  show ?thesis
  proof (cases ev)
    case media_ended
    then have "step plat e s = playNextInQueue plat m"
      by (simp add: Media fire_queue [OF k q] m_def)
    then show ?thesis using playNext_quiet [OF plat np nzm] by simp
  next
    case media_error
    then have "step plat e s = playNextInQueue plat (log_error ''Error playing audio'' m)"
      by (simp add: Media fire_queue [OF k q] m_def)
    then show ?thesis using playNext_quiet [OF plat npl nzl] by simp
  next
    case play_rejected
    then have "step plat e s = playNextInQueue plat (log_error ''Error starting playback:'' m)"
      by (simp add: Media fire_queue [OF k q] m_def)
    then show ?thesis using playNext_quiet [OF plat npl nzl] by simp
  qed
next
  case (Render rs)
  with e show ?thesis by simp
next
  case (ClickPlay i)
  with e show ?thesis by simp
next
  case ClickStop
  with e show ?thesis by simp
qed

lemma run_timely_invariant:
  assumes plat: "\<forall>b. plat b = Starts" and evs: "\<forall>e \<in> set evs. is_queue_event e"
    and tm: "timely plat evs s"
    and oc: "only_current_plays s" and so: "started_in_order s"
    and aq: "set (map installed (audios s)) \<subseteq> {queue_handlers}"
    and idle: "isPlayingQueueRef s \<or> audioQueueRef s = []"
    and busy: "isPlayingQueueRef s \<longrightarrow> audioRef s \<noteq> None"
    and nz: "\<forall>j < length (audios s). playState (audios s ! j) \<noteq> Paused"
    and quiet: "\<not> isPlayingQueueRef s \<longrightarrow> (\<forall>j < length (audios s). playState (audios s ! j) \<noteq> Playing)"
  shows "\<forall>j < length (audios (run plat evs s)). playState (audios (run plat evs s) ! j) \<noteq> Paused"
  using evs tm oc so aq idle busy nz quiet
proof (induction evs arbitrary: s)
  case Nil
  then show ?case by (simp add: run_Nil)
next
  case (Cons e evs)
  from Cons.prems(1) have e: "is_queue_event e" and rest: "\<forall>e \<in> set evs. is_queue_event e"
    by simp_all
  from Cons.prems(2) have tm': "timely plat evs (step plat e s)" by simp
  from plat have plat': "\<forall>b. plat b \<noteq> NewAudioThrows" by simp
  note st = queue_event_invariant [OF plat' e Cons.prems(3) Cons.prems(4) Cons.prems(5)
      Cons.prems(6) Cons.prems(7)]
  note tq = timely_queue_event_invariant [OF plat e Cons.prems(2) Cons.prems(3) Cons.prems(5)
      Cons.prems(8) Cons.prems(9)]
  show ?case
    unfolding run_Cons
    by (rule Cons.IH [OF rest tm' st tq [THEN conjunct1] tq [THEN conjunct2]])
qed


text \<open>
  What the queue does keep.  Take any sequence of renders that append one result each and
  of ends, errors and rejected starts of audio objects, in any interleaving, with no click
  on Play or Stop, on a platform whose \<^verbatim>\<open>Audio\<close> constructor does not raise.  After it,
  the audio objects started so far are those of the first results, one for each and in
  their order; the queue holds exactly the entries of the remaining results, in that
  order; two playing objects are the same object; and while the queue holds an entry the
  consumer is marked playing and the current object is one whose end or error advances
  the queue.  When moreover every object starts and the events are timely, no object is
  ever paused.
\<close>

lemma single_renders_keep_order:
  fixes plat :: "string \<Rightarrow> sync" and evs :: "event list"
  defines "s \<equiv> run plat evs initial_display"
  assumes queue_only: "\<forall>e \<in> set evs. is_queue_event e"
    and constructs: "\<forall>b. plat b \<noteq> NewAudioThrows"
  shows "results s = submitted evs
       \<and> length (audios s) \<le> length (submitted evs)
       \<and> map src (audios s)
           = map (\<lambda>r. data_url (audio_base64 r)) (take (length (audios s)) (submitted evs))
       \<and> audioQueueRef s = drop (length (audios s)) (queue_entries (submitted evs))
       \<and> at_most_one_playing s
       \<and> (audioQueueRef s \<noteq> [] \<longrightarrow>
            isPlayingQueueRef s
            \<and> (\<exists>k < length (audios s). audioRef s = Some k \<and> installed (audios s ! k) = queue_handlers))
       \<and> ((\<forall>b. plat b = Starts) \<and> timely plat evs initial_display \<longrightarrow>
            (\<forall>j < length (audios s). playState (audios s ! j) \<noteq> Paused))"
proof -
  note inv = run_queue_invariant [OF constructs queue_only initial_display_invariant(1-5),
      folded s_def]
  have r: "results s = submitted evs"
    unfolding s_def run_results [OF queue_only] by (simp add: initial_display_invariant(6))
  from inv have so: "started_in_order s" and oc: "only_current_plays s" by blast+
  from so have a: "length (audios s) \<le> length (submitted evs)"
    and b: "map src (audios s)
           = map (\<lambda>r. data_url (audio_base64 r)) (take (length (audios s)) (submitted evs))"
    and c: "audioQueueRef s = drop (length (audios s)) (queue_entries (submitted evs))"
    unfolding started_in_order_def r by blast+
  have d: "at_most_one_playing s" by (rule only_current_at_most_one [OF oc])
  have e: "isPlayingQueueRef s
            \<and> (\<exists>k < length (audios s). audioRef s = Some k \<and> installed (audios s ! k) = queue_handlers)"
    if "audioQueueRef s \<noteq> []"
  proof -
    from inv that have f: "isPlayingQueueRef s" by blast
    with inv obtain k where k: "audioRef s = Some k" by blast
    from only_currentD(2) [OF oc k] have kl: "k < length (audios s)" .
    then have "installed (audios s ! k) \<in> set (map installed (audios s))" by simp
    with inv have "installed (audios s ! k) = queue_handlers" by blast
    with f k kl show ?thesis by blast
  qed
  have g: "\<forall>j < length (audios s). playState (audios s ! j) \<noteq> Paused"
    if "\<forall>b. plat b = Starts" "timely plat evs initial_display"
    unfolding s_def
    by (rule run_timely_invariant [OF that(1) queue_only that(2) initial_display_invariant(1-5)])
      (simp_all add: initial_display_def)
  from r a b c d e g show ?thesis by blast
qed


text \<open>
  Claim C4: results submitted in the order R1, ..., Rn are played in exactly that order,
  at most one at a time, and none is dropped, skipped or reordered even when submissions
  outpace playback.  The component does not do this.  The effect that feeds the queue
  runs once for a render in which \<^verbatim>\<open>results.length\<close> has changed, and it pushes the last
  result only, \<^verbatim>\<open>results[results.length - 1]\<close>.  When two results have been appended
  since the last render, the earlier of them never gets an entry.

  Three results R1, R2, R3 arrive in this order, with payloads \<^verbatim>\<open>QQ==\<close>, \<^verbatim>\<open>Qg==\<close> and
  \<^verbatim>\<open>Qw==\<close>; every audio object starts and plays to its end.  R1 is rendered alone; R2 and
  R3 are appended before the component renders again.  That render pushes the entry of R3
  behind the playing R1, and nothing for R2.  When R1 ends R3 is played, and when R3 ends
  the consumer is idle with an empty queue: all three results are displayed, audio was
  started for R1 and R3, and R2 was skipped.  The same three results rendered one by one
  are played R1, R2, R3.
\<close>

theorem batched_render_skips_a_result:
  "(let r = (\<lambda>a. \<lparr>original_text = ''hello'', translated_text = ''hola'', audio_base64 = a,
                    sample_rate = 22050, latency_ms = 420, confidence = 1,
                    timestamp = Millis 0, is_final = None\<rparr>);
        m = run (\<lambda>b. Starts)
              [Submit (r ''QQ==''), Render [r ''QQ=='', r ''Qg=='', r ''Qw=='']] initial_display;
        s = run (\<lambda>b. Starts) [Media media_ended 0, Media media_ended 1] m;
        t = run (\<lambda>b. Starts)
              [Submit (r ''QQ==''), Submit (r ''Qg==''), Submit (r ''Qw==''),
               Media media_ended 0, Media media_ended 1, Media media_ended 2] initial_display
    in results m = [r ''QQ=='', r ''Qg=='', r ''Qw=='']
       \<and> map src (audios m) = [data_url ''QQ=='']
       \<and> audioQueueRef m = [(''Qw=='', 2)]
       \<and> results s = [r ''QQ=='', r ''Qg=='', r ''Qw=='']
       \<and> map src (audios s) = [data_url ''QQ=='', data_url ''Qw=='']
       \<and> map playState (audios s) = [Ended, Ended]
       \<and> audioQueueRef s = [] \<and> \<not> isPlayingQueueRef s
       \<and> results t = [r ''QQ=='', r ''Qg=='', r ''Qw=='']
       \<and> map src (audios t) = [data_url ''QQ=='', data_url ''Qg=='', data_url ''Qw=='']
       \<and> map playState (audios t) = [Ended, Ended, Ended]
       \<and> audioQueueRef t = [] \<and> \<not> isPlayingQueueRef t)"
proof -
  define r where "r = (\<lambda>a. \<lparr>original_text = ''hello'', translated_text = ''hola'',
                    audio_base64 = a, sample_rate = 22050, latency_ms = 420, confidence = 1,
                    timestamp = Millis 0, is_final = None\<rparr>)"
  define m where "m = run (\<lambda>b. Starts)
              [Submit (r ''QQ==''), Render [r ''QQ=='', r ''Qg=='', r ''Qw=='']] initial_display"
  define s where "s = run (\<lambda>b. Starts) [Media media_ended 0, Media media_ended 1] m"
  define t where "t = run (\<lambda>b. Starts)
              [Submit (r ''QQ==''), Submit (r ''Qg==''), Submit (r ''Qw==''),
               Media media_ended 0, Media media_ended 1, Media media_ended 2] initial_display"
  have batched: "m = \<lparr>results = [r ''QQ=='', r ''Qg=='', r ''Qw==''], playingIndex = Some 0,
         audioRef = Some 0, audioQueueRef = [(''Qw=='', 2)], isPlayingQueueRef = True,
         audios = [new_audio ''QQ=='' queue_handlers Playing], consoleErrors = []\<rparr>"
    by (simp add: m_def r_def display_eval)
  have played: "s = \<lparr>results = [r ''QQ=='', r ''Qg=='', r ''Qw==''], playingIndex = None,
         audioRef = Some 1, audioQueueRef = [], isPlayingQueueRef = False,
         audios = [new_audio ''QQ=='' queue_handlers Ended, new_audio ''Qw=='' queue_handlers Ended],
         consoleErrors = []\<rparr>"
    unfolding s_def batched by (simp add: r_def display_eval)
  have single: "t = \<lparr>results = [r ''QQ=='', r ''Qg=='', r ''Qw==''], playingIndex = None,
         audioRef = Some 2, audioQueueRef = [], isPlayingQueueRef = False,
         audios = [new_audio ''QQ=='' queue_handlers Ended, new_audio ''Qg=='' queue_handlers Ended,
                   new_audio ''Qw=='' queue_handlers Ended],
         consoleErrors = []\<rparr>"
    by (simp add: t_def r_def display_eval)
  have "results m = [r ''QQ=='', r ''Qg=='', r ''Qw=='']
       \<and> map src (audios m) = [data_url ''QQ=='']
       \<and> audioQueueRef m = [(''Qw=='', 2)]
       \<and> results s = [r ''QQ=='', r ''Qg=='', r ''Qw=='']
       \<and> map src (audios s) = [data_url ''QQ=='', data_url ''Qw=='']
       \<and> map playState (audios s) = [Ended, Ended]
       \<and> audioQueueRef s = [] \<and> \<not> isPlayingQueueRef s
       \<and> results t = [r ''QQ=='', r ''Qg=='', r ''Qw=='']
       \<and> map src (audios t) = [data_url ''QQ=='', data_url ''Qg=='', data_url ''Qw=='']
       \<and> map playState (audios t) = [Ended, Ended, Ended]
       \<and> audioQueueRef t = [] \<and> \<not> isPlayingQueueRef t"
    unfolding batched played single by (simp add: new_audio_def)
  then show ?thesis
    unfolding Let_def t_def s_def m_def r_def .
qed


lemma playAudio_queue:
  "audioQueueRef (playAudio plat b i s) = audioQueueRef s"
  "isPlayingQueueRef (playAudio plat b i s) = isPlayingQueueRef s"
  by (simp_all add: playAudio_def Let_def split: sync.splits)

lemma playAudio_audios:
  "audios (playAudio plat b i s) =
     audios (pause_current s) @
       (case plat b of Starts \<Rightarrow> [new_audio b replay_handlers Playing]
        | PlayThrows \<Rightarrow> [new_audio b replay_handlers Paused]
        | NewAudioThrows \<Rightarrow> [])"
  by (simp add: playAudio_def Let_def split: sync.splits)

lemma playAudio_audioRef:
  "audioRef (playAudio plat b i s) =
     (case plat b of NewAudioThrows \<Rightarrow> None | _ \<Rightarrow> Some (length (audios s)))"
  by (simp add: playAudio_def Let_def split: sync.splits)

lemma pause_current_stops_current:
  assumes "audioRef s = Some k" "k < length (audios s)"
  shows "playState (audios (pause_current s) ! k) \<noteq> Playing"
  using assms by (simp add: pause_current_def nth_pause)

lemma pause_current_never_starts:
  assumes "j < length (audios s)" "playState (audios (pause_current s) ! j) = Playing"
  shows "playState (audios s ! j) = Playing"
  using assms by (auto simp: pause_current_def nth_pause split: option.splits if_splits)

text \<open>
  Claim C5.  \<^verbatim>\<open>playAudio(audioBase64, index)\<close> leaves the queue, its order and the
  flag of the consumer as they are, and the results too; it pauses the object in
  \<^verbatim>\<open>audioRef.current\<close>, so that, only the current object being able to play, none of
  the objects that existed before is playing afterwards; it starts none of them again
  and makes none of them current again: the displaced object is neither resumed nor put
  back into the queue.
\<close>

theorem playAudio_interrupts_and_keeps_queue:
  fixes s :: display and plat :: "string \<Rightarrow> sync" and payload :: string and index :: nat
  defines "s' \<equiv> playAudio plat payload index s"
  shows "audioQueueRef s' = audioQueueRef s
       \<and> isPlayingQueueRef s' = isPlayingQueueRef s
       \<and> results s' = results s
       \<and> (\<forall>k < length (audios s). audioRef s = Some k \<longrightarrow> playState (audios s' ! k) \<noteq> Playing)
       \<and> (only_current_plays s \<longrightarrow>
            (\<forall>j < length (audios s). playState (audios s' ! j) \<noteq> Playing))
       \<and> take (length (audios s)) (audios s') = audios (pause_current s)
       \<and> (\<forall>j < length (audios s). playState (audios s' ! j) = Playing \<longrightarrow>
            playState (audios s ! j) = Playing)
       \<and> (\<forall>k < length (audios s). audioRef s' \<noteq> Some k)"
proof -
  have old: "audios s' ! j = audios (pause_current s) ! j" if "j < length (audios s)" for j
    using that unfolding s'_def playAudio_audios by (simp add: nth_append)
  have a: "\<forall>k < length (audios s). audioRef s = Some k \<longrightarrow> playState (audios s' ! k) \<noteq> Playing"
    using old pause_current_stops_current by simp
  have b: "\<forall>j < length (audios s). playState (audios s' ! j) \<noteq> Playing" if "only_current_plays s"
    using old pause_current_stops [OF that] by simp
  have c: "take (length (audios s)) (audios s') = audios (pause_current s)"
    unfolding s'_def playAudio_audios by simp
  have d: "\<forall>j < length (audios s). playState (audios s' ! j) = Playing \<longrightarrow>
            playState (audios s ! j) = Playing"
    using old pause_current_never_starts by simp
  have e: "\<forall>k < length (audios s). audioRef s' \<noteq> Some k"
    unfolding s'_def playAudio_audioRef by (simp split: sync.splits)
  show ?thesis
    using a b c d e unfolding s'_def by (simp add: playAudio_queue playAudio_results)
qed


theorem playAudio_interrupts_witness:
  "(let r = (\<lambda>a. \<lparr>original_text = ''hello'', translated_text = ''hola'', audio_base64 = a,
                    sample_rate = 22050, latency_ms = 420, confidence = 1,
                    timestamp = Millis 0, is_final = None\<rparr>);
        s = run (\<lambda>b. Starts) [Submit (r ''QQ==''), Submit (r ''Qg==''), Submit (r ''Qw=='')]
              initial_display;
        s' = playAudio (\<lambda>b. Starts) ''QQ=='' 0 s
    in map playState (audios s) = [Playing]
       \<and> audioQueueRef s' = [(''Qg=='', 1), (''Qw=='', 2)]
       \<and> isPlayingQueueRef s'
       \<and> (\<forall>j < length (audios s). playState (audios s' ! j) \<noteq> Playing))"
proof -
  define r where "r = (\<lambda>a. \<lparr>original_text = ''hello'', translated_text = ''hola'',
                    audio_base64 = a, sample_rate = 22050, latency_ms = 420, confidence = 1,
                    timestamp = Millis 0, is_final = None\<rparr>)"
  define s where "s = run (\<lambda>b. Starts) [Submit (r ''QQ==''), Submit (r ''Qg==''), Submit (r ''Qw=='')]
              initial_display"
  have e: "map playState (audios s) = [Playing]"
    "audioQueueRef s = [(''Qg=='', 1), (''Qw=='', 2)]" "isPlayingQueueRef s"
    "only_current_plays s"
    by (simp_all add: s_def r_def display_eval only_current_plays_def)
  note t = playAudio_interrupts_and_keeps_queue
    [where s = s and plat = "\<lambda>b. Starts" and payload = "''QQ==''" and index = 0]
  have "audioQueueRef (playAudio (\<lambda>b. Starts) ''QQ=='' 0 s) = [(''Qg=='', 1), (''Qw=='', 2)]"
    using t e(2) by simp
  moreover have "isPlayingQueueRef (playAudio (\<lambda>b. Starts) ''QQ=='' 0 s)"
    using t e(3) by simp
  moreover have "\<forall>j < length (audios s). playState (audios (playAudio (\<lambda>b. Starts) ''QQ=='' 0 s) ! j) \<noteq> Playing"
    using t e(4) by blast
  ultimately show ?thesis
    using e(1) unfolding Let_def s_def r_def by blast
qed


lemma fire_replay:
  assumes "k < length (audios s)" "installed (audios s ! k) = replay_handlers"
  shows "audioQueueRef (fire plat ev k s) = audioQueueRef s"
    "isPlayingQueueRef (fire plat ev k s) = isPlayingQueueRef s"
    "length (audios (fire plat ev k s)) = length (audios s)"
    "results (fire plat ev k s) = results s"
    "map src (audios (fire plat ev k s)) = map src (audios s)"
    "map installed (audios (fire plat ev k s)) = map installed (audios s)"
  using assms by (simp_all add: fire_def Let_def split: media_event.splits)

lemma stopAudio_queue:
  "audioQueueRef (stopAudio s) = audioQueueRef s"
  "isPlayingQueueRef (stopAudio s) = isPlayingQueueRef s"
  by (simp_all add: stopAudio_def split: option.splits)

lemma render_idle:
  assumes "isPlayingQueueRef s \<or> audioQueueRef s = []"
  shows "isPlayingQueueRef (render plat rs s) \<or> audioQueueRef (render plat rs s) = []"
  using assms playNext_idle_only_when_empty
  by (simp add: render_def autoPlayEffect_def Let_def)

lemma step_idle:
  assumes "isPlayingQueueRef s \<or> audioQueueRef s = []"
  shows "isPlayingQueueRef (step plat e s) \<or> audioQueueRef (step plat e s) = []"
proof (cases e)
  case (Submit r)
  show ?thesis
    unfolding Submit step_Submit using playNext_idle_only_when_empty by simp
next
  case (Render rs)
  show ?thesis
    unfolding Render step.simps by (rule render_idle [OF assms])
next
  case (Media ev k)
  show ?thesis
  proof (cases "k < length (audios s)")
    case False
    with assms show ?thesis by (simp add: Media fire_out_of_range)
  next
    case True
    show ?thesis
    proof (cases "installed (audios s ! k)")
      case queue_handlers
      show ?thesis
        using playNext_idle_only_when_empty by (simp add: Media fire_queue [OF True queue_handlers])
    next
      case replay_handlers
      show ?thesis
        using assms by (simp add: Media fire_replay [OF True replay_handlers])
    qed
  qed
next
  case (ClickPlay i)
  with assms show ?thesis by (simp add: playAudio_queue)
next
  case ClickStop
  with assms show ?thesis by (simp add: stopAudio_queue)
qed

lemma run_idle:
  assumes "isPlayingQueueRef s \<or> audioQueueRef s = []"
  shows "isPlayingQueueRef (run plat evs s) \<or> audioQueueRef (run plat evs s) = []"
  using assms
proof (induction evs arbitrary: s)
  case Nil
  then show ?case by (simp add: run_Nil)
next
  case (Cons e evs)
  show ?case unfolding run_Cons by (rule Cons.IH [OF step_idle [OF Cons.prems]])
qed

lemma playNext_never_restarts:
  "\<forall>j < length (audios s). playState (audios (playNextInQueue plat s) ! j) = Playing \<longrightarrow>
     playState (audios s ! j) = Playing"
proof (rule playNext_induct [where P = "\<lambda>s s'. \<forall>j < length (audios s).
        playState (audios s' ! j) = Playing \<longrightarrow> playState (audios s ! j) = Playing"])
  fix s :: display
  show "\<forall>j<length (audios s).
      playState (audios (s\<lparr>isPlayingQueueRef := False, playingIndex := None\<rparr>) ! j) = Playing \<longrightarrow>
      playState (audios s ! j) = Playing"
    by simp
next
  fix s :: display and b i rest s2
  assume s2: "s2 = pause_current (s\<lparr>isPlayingQueueRef := True, audioQueueRef := rest\<rparr>)"
  show "\<forall>j<length (audios s).
      playState (audios (register_audio b i queue_handlers Playing s2) ! j) = Playing \<longrightarrow>
      playState (audios s ! j) = Playing"
  proof (intro allI impI)
    fix j
    assume j: "j < length (audios s)"
      and p: "playState (audios (register_audio b i queue_handlers Playing s2) ! j) = Playing"
    from j p have "playState (audios s2 ! j) = Playing" by (simp add: s2 nth_append)
    with pause_current_never_starts [of j "s\<lparr>isPlayingQueueRef := True, audioQueueRef := rest\<rparr>"] j
    show "playState (audios s ! j) = Playing" by (simp add: s2)
  qed
next
  fix s :: display and b i rest s2 t
  assume s2: "s2 = pause_current (s\<lparr>isPlayingQueueRef := True, audioQueueRef := rest\<rparr>)"
    and t: "t = log_error ''Error playing audio:'' s2"
    and ih: "\<forall>j<length (audios t). playState (audios (playNextInQueue plat t) ! j) = Playing \<longrightarrow>
        playState (audios t ! j) = Playing"
  show "\<forall>j<length (audios s). playState (audios (playNextInQueue plat t) ! j) = Playing \<longrightarrow>
        playState (audios s ! j) = Playing"
  proof (intro allI impI)
    fix j
    assume j: "j < length (audios s)"
      and p: "playState (audios (playNextInQueue plat t) ! j) = Playing"
    from j have "j < length (audios t)" by (simp add: t s2)
    with ih p have "playState (audios t ! j) = Playing" by blast
    then have "playState (audios s2 ! j) = Playing" by (simp add: t)
    with pause_current_never_starts [of j "s\<lparr>isPlayingQueueRef := True, audioQueueRef := rest\<rparr>"] j
    show "playState (audios s ! j) = Playing" by (simp add: s2)
  qed
next
  fix s :: display and b i rest s2 t
  assume s2: "s2 = pause_current (s\<lparr>isPlayingQueueRef := True, audioQueueRef := rest\<rparr>)"
    and t: "t = log_error ''Error playing audio:'' (register_audio b i queue_handlers Paused s2)"
    and ih: "\<forall>j<length (audios t). playState (audios (playNextInQueue plat t) ! j) = Playing \<longrightarrow>
        playState (audios t ! j) = Playing"
  show "\<forall>j<length (audios s). playState (audios (playNextInQueue plat t) ! j) = Playing \<longrightarrow>
        playState (audios s ! j) = Playing"
  proof (intro allI impI)
    fix j
    assume j: "j < length (audios s)"
      and p: "playState (audios (playNextInQueue plat t) ! j) = Playing"
    from j have "j < length (audios t)" by (simp add: t s2)
    with ih p have "playState (audios t ! j) = Playing" by blast
    with j have "playState (audios s2 ! j) = Playing" by (simp add: t s2 nth_append)
    with pause_current_never_starts [of j "s\<lparr>isPlayingQueueRef := True, audioQueueRef := rest\<rparr>"] j
    show "playState (audios s ! j) = Playing" by (simp add: s2)
  qed
qed

text \<open>
  Claim C6.  When an audio object of the queue fails (its \<open>error\<close> event, or the
  rejection of its \<^verbatim>\<open>play()\<close>), the handler logs the error and calls
  \<^verbatim>\<open>playNextInQueue\<close> at once: the failed object is not playing; when the queue holds
  an entry that the platform starts, that entry is taken from the queue and its object
  is created, playing and current, with the consumer marked playing; when the queue is
  empty the consumer becomes idle.  After the call, and after any sequence of events
  whatever, the consumer is idle only when the queue is empty.
\<close>

theorem playback_error_advances_queue:
  fixes s :: display and plat :: "string \<Rightarrow> sync" and ev :: media_event and k :: nat
  defines "s' \<equiv> fire plat ev k s"
  defines "msg \<equiv> (if ev = media_error then ''Error playing audio'' else ''Error starting playback:'')"
  assumes k: "k < length (audios s)" and q: "installed (audios s ! k) = queue_handlers"
    and ev: "ev = media_error \<or> ev = play_rejected"
  shows "take (Suc (length (consoleErrors s))) (consoleErrors s') = consoleErrors s @ [msg]
       \<and> playState (audios s' ! k) \<noteq> Playing
       \<and> (\<forall>b i rest. audioQueueRef s = (b, i) # rest \<and> plat b = Starts \<longrightarrow>
             audioQueueRef s' = rest
             \<and> length (audios s') = Suc (length (audios s))
             \<and> audios s' ! length (audios s) = new_audio b queue_handlers Playing
             \<and> audioRef s' = Some (length (audios s))
             \<and> playingIndex s' = Some i
             \<and> isPlayingQueueRef s')
       \<and> (audioQueueRef s = [] \<longrightarrow> \<not> isPlayingQueueRef s' \<and> playingIndex s' = None)
       \<and> (isPlayingQueueRef s' \<or> audioQueueRef s' = [])
       \<and> (isPlayingQueueRef (run plat evs initial_display)
            \<or> audioQueueRef (run plat evs initial_display) = [])"
proof -
  define t where "t = log_error msg (mark_event ev k s)"
  have s': "s' = playNextInQueue plat t"
    using ev unfolding s'_def t_def msg_def by (auto simp: fire_queue [OF k q])
  have tq: "audioQueueRef t = audioQueueRef s" and tl: "consoleErrors t = consoleErrors s @ [msg]"
    and tn: "length (audios t) = length (audios s)"
    by (simp_all add: t_def)
  have a: "take (Suc (length (consoleErrors s))) (consoleErrors s') = consoleErrors s @ [msg]"
  proof -
    from playNext_log_grows [where plat = plat and s = t] obtain more where
      "consoleErrors s' = (consoleErrors s @ [msg]) @ more"
      unfolding s' tl by blast
    then show ?thesis by simp
  qed
  have tk: "playState (audios t ! k) \<noteq> Playing"
    using k ev by (auto simp: t_def mark_event_def after_event_def)
  have b: "playState (audios s' ! k) \<noteq> Playing"
  proof
    assume p: "playState (audios s' ! k) = Playing"
    note playNext_never_restarts [where plat = plat and s = t]
    with p k tn tk show False unfolding s' by simp
  qed
  have c: "audioQueueRef s' = rest
             \<and> length (audios s') = Suc (length (audios s))
             \<and> audios s' ! length (audios s) = new_audio b queue_handlers Playing
             \<and> audioRef s' = Some (length (audios s))
             \<and> playingIndex s' = Some i
             \<and> isPlayingQueueRef s'"
    if "audioQueueRef s = (b, i) # rest" "plat b = Starts" for b i rest
  proof -
    from that tq have "audioQueueRef t = (b, i) # rest" by simp
    from playNext_Starts [where plat = plat, OF this that(2)] show ?thesis
      unfolding s' by (simp add: tn nth_append)
  qed
  have d: "\<not> isPlayingQueueRef s' \<and> playingIndex s' = None" if "audioQueueRef s = []"
    using that tq unfolding s' by (simp add: playNext_Nil)
  have e: "isPlayingQueueRef s' \<or> audioQueueRef s' = []"
    unfolding s' by (rule playNext_idle_only_when_empty)
  have f: "isPlayingQueueRef (run plat evs initial_display)
            \<or> audioQueueRef (run plat evs initial_display) = []"
    by (rule run_idle) (simp add: initial_display_def)
  from a b c d e f show ?thesis by blast
qed


theorem playback_error_advances_queue_witness:
  "(let r = (\<lambda>a. \<lparr>original_text = ''hello'', translated_text = ''hola'', audio_base64 = a,
                    sample_rate = 22050, latency_ms = 420, confidence = 1,
                    timestamp = Millis 0, is_final = None\<rparr>);
        s = run (\<lambda>b. Starts) [Submit (r ''QQ==''), Submit (r ''Qg=='')] initial_display;
        s' = fire (\<lambda>b. Starts) media_error 0 s;
        s'' = fire (\<lambda>b. Starts) play_rejected 1 s'
    in audioQueueRef s = [(''Qg=='', 1)]
       \<and> take 1 (consoleErrors s') = [''Error playing audio'']
       \<and> playState (audios s' ! 0) \<noteq> Playing
       \<and> audioQueueRef s' = [] \<and> playingIndex s' = Some 1 \<and> isPlayingQueueRef s'
       \<and> audios s' ! 1 = new_audio ''Qg=='' queue_handlers Playing
       \<and> \<not> isPlayingQueueRef s'' \<and> playingIndex s'' = None)"
proof -
  define r where "r = (\<lambda>a. \<lparr>original_text = ''hello'', translated_text = ''hola'',
                    audio_base64 = a, sample_rate = 22050, latency_ms = 420, confidence = 1,
                    timestamp = Millis 0, is_final = None\<rparr>)"
  define s where "s = run (\<lambda>b. Starts) [Submit (r ''QQ==''), Submit (r ''Qg=='')] initial_display"
  define s' where "s' = fire (\<lambda>b. Starts) media_error 0 s"
  define s'' where "s'' = fire (\<lambda>b. Starts) play_rejected 1 s'"
  have e: "0 < length (audios s)" "installed (audios s ! 0) = queue_handlers"
    "audioQueueRef s = [(''Qg=='', 1)]" "length (audios s) = 1" "consoleErrors s = []"
    by (simp_all add: s_def r_def display_eval)
  note a = playback_error_advances_queue
    [where s = s and plat = "\<lambda>b. Starts" and ev = media_error and k = 0, OF e(1) e(2),
      folded s'_def]
  from a e(3,4,5) have f: "take 1 (consoleErrors s') = [''Error playing audio'']"
    "playState (audios s' ! 0) \<noteq> Playing"
    "audioQueueRef s' = []" "playingIndex s' = Some 1" "isPlayingQueueRef s'"
    "audios s' ! 1 = new_audio ''Qg=='' queue_handlers Playing" "length (audios s') = 2"
    by simp_all
  have g: "1 < length (audios s')" "installed (audios s' ! 1) = queue_handlers"
    using f(6,7) by simp_all
  note b = playback_error_advances_queue
    [where s = s' and plat = "\<lambda>b. Starts" and ev = play_rejected and k = 1, OF g,
      folded s''_def]
  from b f(3) have h: "\<not> isPlayingQueueRef s''" "playingIndex s'' = None"
    by simp_all
  show ?thesis
    using e(3) f h unfolding Let_def s''_def s'_def s_def r_def by blast
qed


lemma step_Submit_busy:
  assumes "isPlayingQueueRef t"
  shows "step plat (Submit r) t =
           t\<lparr>results := results t @ [r],
             audioQueueRef := audioQueueRef t @ [(audio_base64 r, length (results t))]\<rparr>"
  using assms unfolding step_Submit by simp

lemma run_submits_busy:
  assumes "isPlayingQueueRef t"
  shows "audios (run plat (map Submit rs) t) = audios t
       \<and> isPlayingQueueRef (run plat (map Submit rs) t)
       \<and> audioRef (run plat (map Submit rs) t) = audioRef t
       \<and> results (run plat (map Submit rs) t) = results t @ rs
       \<and> audioQueueRef (run plat (map Submit rs) t) =
           audioQueueRef t @ zip (map audio_base64 rs)
                                 [length (results t)..<length (results t) + length rs]"
  using assms
proof (induction rs arbitrary: t)
  case Nil
  then show ?case by (simp add: run_Nil)
next
  case (Cons r rs)
  define t1 where "t1 = step plat (Submit r) t"
  have t1: "t1 = t\<lparr>results := results t @ [r],
             audioQueueRef := audioQueueRef t @ [(audio_base64 r, length (results t))]\<rparr>"
    unfolding t1_def by (rule step_Submit_busy [OF Cons.prems])
  have b: "isPlayingQueueRef t1" using Cons.prems by (simp add: t1)
  have u: "[length (results t)..<length (results t) + length (r # rs)]
      = length (results t) # [length (results t1)..<length (results t1) + length rs]"
  proof -
    have "[n..<n + Suc k] = n # [Suc n..<Suc n + k]" for n k :: nat
      by (subst upt_rec) simp
    from this [of "length (results t)" "length rs"] show ?thesis by (simp add: t1)
  qed
  have e: "run plat (map Submit (r # rs)) t = run plat (map Submit rs) t1"
    by (simp add: run_Cons t1_def del: step.simps)
  from Cons.IH [OF b] show ?case
    unfolding e u by (simp add: t1)
qed

lemma playAudio_new_objects:
  "\<forall>a \<in> set (drop (length (audios s)) (audios (playAudio plat b i s))). installed a = replay_handlers"
  unfolding playAudio_audios by (simp split: sync.splits)

lemma fire_keeps_new_objects:
  assumes "n \<le> length (audios s)"
    and "\<forall>a \<in> set (drop n (audios s)). installed a = replay_handlers"
    and "n \<le> k"
  shows "audioQueueRef (fire plat ev k s) = audioQueueRef s
       \<and> isPlayingQueueRef (fire plat ev k s) = isPlayingQueueRef s
       \<and> results (fire plat ev k s) = results s
       \<and> length (audios (fire plat ev k s)) = length (audios s)
       \<and> map installed (audios (fire plat ev k s)) = map installed (audios s)"
proof (cases "k < length (audios s)")
  case False
  then show ?thesis by (simp add: fire_out_of_range)
next
  case True
  have "audios s ! k \<in> set (drop n (audios s))"
  proof -
    have "k - n < length (drop n (audios s))" using True assms(3) by simp
    then have "drop n (audios s) ! (k - n) \<in> set (drop n (audios s))" by (rule nth_mem)
    moreover have "drop n (audios s) ! (k - n) = audios s ! k"
      using True assms(3) by simp
    ultimately show ?thesis by simp
  qed
  with assms(2) have "installed (audios s ! k) = replay_handlers" by blast
  from fire_replay [OF True this] show ?thesis by simp
qed


lemma fire_replay_nth:
  assumes "k < length (audios s)" "installed (audios s ! k) = replay_handlers"
  shows "j \<noteq> k \<Longrightarrow> audios (fire plat ev k s) ! j = audios s ! j"
    and "playState (audios (fire plat ev k s) ! k) \<noteq> Playing"
  using assms
  by (simp_all add: fire_def Let_def mark_event_def after_event_def split: media_event.splits)

lemma playAudio_length:
  "length (audios s) \<le> length (audios (playAudio plat b i s))"
  "length (audios (playAudio plat b i s)) \<le> Suc (length (audios s))"
  unfolding playAudio_audios by (simp_all split: sync.splits)

lemma playAudio_old:
  "j < length (audios s) \<Longrightarrow> audios (playAudio plat b i s) ! j = audios (pause_current s) ! j"
  unfolding playAudio_audios by (simp add: nth_append)

text \<open>
  Claim C10.  \<^verbatim>\<open>playAudio\<close> and the handlers it installs leave the queue and the flag
  of the consumer as they are and create no object of the queue.  So when a replay
  interrupts the consumer while it is marked playing, then whatever event the replayed
  object has next (its end, an error), and however many results are submitted after it,
  the entries that were queued are still queued, the new results are queued behind them,
  the flag is still set, no object has been created for any of them, and, only the
  current object having been able to play, nothing is playing.
\<close>

theorem manual_replay_leaves_queue_stalled:
  fixes s :: display and plat :: "string \<Rightarrow> sync" and payload :: string and index :: nat
    and ev :: media_event and rs :: "TranslationResult list"
  defines "s1 \<equiv> playAudio plat payload index s"
  defines "s2 \<equiv> fire plat ev (length (audios s)) s1"
  defines "s3 \<equiv> run plat (map Submit rs) s2"
  assumes busy: "isPlayingQueueRef s"
  shows "audioQueueRef s1 = audioQueueRef s \<and> isPlayingQueueRef s1
       \<and> audioQueueRef s2 = audioQueueRef s \<and> isPlayingQueueRef s2
       \<and> length (audios s2) = length (audios s1)
       \<and> audioQueueRef s3 = audioQueueRef s @
            zip (map audio_base64 rs) [length (results s)..<length (results s) + length rs]
       \<and> isPlayingQueueRef s3
       \<and> audios s3 = audios s2
       \<and> length (audios s3) \<le> Suc (length (audios s))
       \<and> (\<forall>a \<in> set (drop (length (audios s)) (audios s3)). installed a = replay_handlers)
       \<and> (only_current_plays s \<longrightarrow>
            (\<forall>j < length (audios s3). playState (audios s3 ! j) \<noteq> Playing))
       \<and> (\<forall>t k ev'. k < length (audios t) \<and> installed (audios t ! k) = replay_handlers \<longrightarrow>
              audioQueueRef (fire plat ev' k t) = audioQueueRef t
              \<and> isPlayingQueueRef (fire plat ev' k t) = isPlayingQueueRef t
              \<and> length (audios (fire plat ev' k t)) = length (audios t))"
proof -
  let ?n = "length (audios s)"
  have q1: "audioQueueRef s1 = audioQueueRef s" and f1: "isPlayingQueueRef s1"
    and r1: "results s1 = results s"
    using busy unfolding s1_def by (simp_all add: playAudio_queue playAudio_results)
  have n1: "?n \<le> length (audios s1)" and n1': "length (audios s1) \<le> Suc ?n"
    unfolding s1_def by (rule playAudio_length)+
  have new1: "\<forall>a \<in> set (drop ?n (audios s1)). installed a = replay_handlers"
    unfolding s1_def by (rule playAudio_new_objects)
  from fire_keeps_new_objects [OF n1 new1 order_refl, of plat ev]
  have q2: "audioQueueRef s2 = audioQueueRef s" and f2: "isPlayingQueueRef s2"
    and r2: "results s2 = results s" and l2: "length (audios s2) = length (audios s1)"
    and i2: "map installed (audios s2) = map installed (audios s1)"
    unfolding s2_def using q1 f1 r1 by simp_all
  from run_submits_busy [OF f2, of plat rs]
  have a3: "audios s3 = audios s2" and f3: "isPlayingQueueRef s3"
    and q3: "audioQueueRef s3 = audioQueueRef s @
            zip (map audio_base64 rs) [length (results s)..<length (results s) + length rs]"
    unfolding s3_def using q2 r2 by simp_all
  have l3: "length (audios s3) \<le> Suc ?n" using a3 l2 n1' by simp
  have new3: "\<forall>a \<in> set (drop ?n (audios s3)). installed a = replay_handlers"
  proof -
    have "map installed (drop ?n (audios s3)) = map installed (drop ?n (audios s1))"
      unfolding a3 drop_map [symmetric] i2 ..
    then have "set (map installed (drop ?n (audios s3))) = set (map installed (drop ?n (audios s1)))"
      by simp
    with new1 show ?thesis by auto
  qed
  have quiet: "\<forall>j < length (audios s3). playState (audios s3 ! j) \<noteq> Playing"
    if oc: "only_current_plays s"
  proof (intro allI impI)
    fix j
    assume "j < length (audios s3)"
    then have j: "j < length (audios s1)" using a3 l2 by simp
    show "playState (audios s3 ! j) \<noteq> Playing"
    proof (cases "j < ?n")
      case True
      have "playState (audios s1 ! j) \<noteq> Playing"
        unfolding s1_def playAudio_old [OF True] by (rule pause_current_stops [OF oc True])
      moreover have "audios s2 ! j = audios s1 ! j"
      proof (cases "?n < length (audios s1)")
        case False
        then show ?thesis unfolding s2_def by (simp add: fire_out_of_range)
      next
        case k: True
        then have "audios s1 ! ?n \<in> set (drop ?n (audios s1))"
          by (metis Cons_nth_drop_Suc list.set_intros(1))
        with new1 have "installed (audios s1 ! ?n) = replay_handlers" by blast
        from fire_replay_nth(1) [OF k this] True show ?thesis unfolding s2_def by simp
      qed
      ultimately show ?thesis unfolding a3 by simp
    next
      case False
      with j n1' have jn: "j = ?n" by simp
      with j have k: "?n < length (audios s1)" by simp
      then have "audios s1 ! ?n \<in> set (drop ?n (audios s1))"
        by (metis Cons_nth_drop_Suc list.set_intros(1))
      with new1 have "installed (audios s1 ! ?n) = replay_handlers" by blast
      from fire_replay_nth(2) [OF k this] show ?thesis unfolding a3 s2_def jn .
    qed
  qed
  have gen: "\<forall>t k ev'. k < length (audios t) \<and> installed (audios t ! k) = replay_handlers \<longrightarrow>
              audioQueueRef (fire plat ev' k t) = audioQueueRef t
              \<and> isPlayingQueueRef (fire plat ev' k t) = isPlayingQueueRef t
              \<and> length (audios (fire plat ev' k t)) = length (audios t)"
    using fire_replay by blast
  from q1 f1 q2 f2 l2 q3 f3 a3 l3 new3 quiet gen show ?thesis by blast
qed


theorem manual_replay_leaves_queue_stalled_witness:
  "(let r = (\<lambda>a. \<lparr>original_text = ''hello'', translated_text = ''hola'', audio_base64 = a,
                    sample_rate = 22050, latency_ms = 420, confidence = 1,
                    timestamp = Millis 0, is_final = None\<rparr>);
        s = run (\<lambda>b. Starts) [Submit (r ''QQ==''), Submit (r ''Qg=='')] initial_display;
        s1 = playAudio (\<lambda>b. Starts) ''QQ=='' 0 s;
        s2 = fire (\<lambda>b. Starts) media_ended (length (audios s)) s1;
        s3 = run (\<lambda>b. Starts) (map Submit [r ''Qw==''])  s2
    in isPlayingQueueRef s \<and> audioQueueRef s = [(''Qg=='', 1)]
       \<and> audioQueueRef s3 = [(''Qg=='', 1), (''Qw=='', 2)]
       \<and> isPlayingQueueRef s3
       \<and> (\<forall>j < length (audios s3). playState (audios s3 ! j) \<noteq> Playing)
       \<and> (\<forall>a \<in> set (drop (length (audios s)) (audios s3)). installed a = replay_handlers))"
proof -
  define r where "r = (\<lambda>a. \<lparr>original_text = ''hello'', translated_text = ''hola'',
                    audio_base64 = a, sample_rate = 22050, latency_ms = 420, confidence = 1,
                    timestamp = Millis 0, is_final = None\<rparr>)"
  define s where "s = run (\<lambda>b. Starts) [Submit (r ''QQ==''), Submit (r ''Qg=='')] initial_display"
  define s1 where "s1 = playAudio (\<lambda>b. Starts) ''QQ=='' 0 s"
  define s2 where "s2 = fire (\<lambda>b. Starts) media_ended (length (audios s)) s1"
  define s3 where "s3 = run (\<lambda>b. Starts) (map Submit [r ''Qw=='']) s2"
  have e: "isPlayingQueueRef s" "audioQueueRef s = [(''Qg=='', 1)]" "only_current_plays s"
    "length (results s) = 2"
    by (simp_all add: s_def r_def display_eval only_current_plays_def)
  note t = manual_replay_leaves_queue_stalled
    [where s = s and plat = "\<lambda>b. Starts" and payload = "''QQ==''" and index = 0
       and ev = media_ended and rs = "[r ''Qw=='']", OF e(1),
     folded s1_def, folded s2_def, folded s3_def]
  have a: "audioQueueRef s3 = [(''Qg=='', 1), (''Qw=='', 2)]"
    using t e(2) e(4) by (simp add: r_def)
  have b: "isPlayingQueueRef s3" using t by blast
  have c: "\<forall>j < length (audios s3). playState (audios s3 ! j) \<noteq> Playing"
    using t e(3) by blast
  have d: "\<forall>a \<in> set (drop (length (audios s)) (audios s3)). installed a = replay_handlers"
    using t by blast
  show ?thesis
    using e(1,2) a b c d unfolding Let_def s3_def s2_def s1_def s_def r_def by blast
qed



end
